theory Spec2Isabelle
  imports Main
begin

section \<open>CodexPro: project store and message/snippet ingestor\<close>

text \<open>
  A shallow embedding of the state logic of the application root component
  (\<^verbatim>\<open>App\<close>): \<^verbatim>\<open>saveProjects\<close>, the load effect, \<^verbatim>\<open>createProject\<close>,
  \<^verbatim>\<open>addMessage\<close> and \<^verbatim>\<open>handleSendMessage\<close>, over the data model of
  \<^verbatim>\<open>types.ts\<close>.

  Strings are \<^typ>\<open>string\<close>: a \<^typ>\<open>char\<close> stands for one code unit in the range
  0..255.  The platform functions that the component calls (regular-expression
  matching, \<^verbatim>\<open>Date\<close>, \<^verbatim>\<open>JSON\<close>, \<^verbatim>\<open>localStorage\<close>, \<^verbatim>\<open>crypto.randomUUID\<close>)
  are modelled by what ECMAScript says they compute on such strings.
\<close>

subsection \<open>Characters and decimal numerals\<close>

definition code_unit :: "char \<Rightarrow> int" where
  "code_unit c = of_char c"

text \<open>The character class \<^verbatim>\<open>\w\<close>: \<^verbatim>\<open>[A-Za-z0-9_]\<close>.\<close>

definition word_char :: "char \<Rightarrow> bool" where
  "word_char c =
     (let n = code_unit c
      in (48 \<le> n \<and> n \<le> 57) \<or> (65 \<le> n \<and> n \<le> 90) \<or> n = 95 \<or> (97 \<le> n \<and> n \<le> 122))"

text \<open>
  The character class \<^verbatim>\<open>\s\<close> on code units below 256: tab, line feed,
  vertical tab, form feed, carriage return, space and no-break space.
\<close>

definition js_space :: "char \<Rightarrow> bool" where
  "js_space c = (let n = code_unit c in (9 \<le> n \<and> n \<le> 13) \<or> n = 32 \<or> n = 160)"

text \<open>\<^verbatim>\<open>toLowerCase\<close> on the letters A to Z; other code units are kept.\<close>

definition lower_char :: "char \<Rightarrow> char" where
  "lower_char c =
     (case map_of (zip ''ABCDEFGHIJKLMNOPQRSTUVWXYZ'' ''abcdefghijklmnopqrstuvwxyz'') c of
        Some l \<Rightarrow> l
      | None \<Rightarrow> c)"

definition toLowerCase :: "string \<Rightarrow> string" where
  "toLowerCase s = map lower_char s"

definition digit_char :: "nat \<Rightarrow> char" where
  "digit_char d = ''0123456789'' ! (d mod 10)"

text \<open>\<^verbatim>\<open>Number.prototype.toString\<close> on a non-negative integer.\<close>

fun string_of_nat :: "nat \<Rightarrow> string" where
  "string_of_nat n =
     (if n < 10 then [digit_char n] else string_of_nat (n div 10) @ [digit_char (n mod 10)])"

declare string_of_nat.simps [simp del]

text \<open>\<^verbatim>\<open>String(n).padStart(w, '0')\<close>.\<close>

definition pad0 :: "nat \<Rightarrow> nat \<Rightarrow> string" where
  "pad0 w n = replicate (w - length (string_of_nat n)) (CHR ''0'') @ string_of_nat n"

text \<open>\<^verbatim>\<open>s.slice(-4)\<close>: the last four code units, or all of a shorter string.\<close>

definition slice_last4 :: "string \<Rightarrow> string" where
  "slice_last4 s = drop (length s - 4) s"

subsection \<open>Dates\<close>

text \<open>
  A \<^verbatim>\<open>Date\<close> is its time value, the milliseconds since the epoch (the clock is
  after 1970).  \<^verbatim>\<open>toISOString\<close> prints it in UTC as
  \<^verbatim>\<open>YYYY-MM-DDTHH:mm:ss.sssZ\<close>, with the six-digit form \<^verbatim>\<open>+YYYYYY\<close> of the year
  after 9999.
\<close>

definition year_of_era :: "nat \<Rightarrow> nat" where
  "year_of_era doe = (doe - doe div 1460 + doe div 36524 - doe div 146096) div 365"

definition day_of_year :: "nat \<Rightarrow> nat \<Rightarrow> nat" where
  "day_of_year doe yoe = doe - (365 * yoe + yoe div 4 - yoe div 100)"

definition month_index :: "nat \<Rightarrow> nat" where
  "month_index doy = (5 * doy + 2) div 153"

definition civil_month :: "nat \<Rightarrow> nat" where
  "civil_month mp = (if mp < 10 then mp + 3 else mp - 9)"

definition civil_day :: "nat \<Rightarrow> nat \<Rightarrow> nat" where
  "civil_day doy mp = doy - (153 * mp + 2) div 5 + 1"

definition civil_year :: "nat \<Rightarrow> nat \<Rightarrow> nat \<Rightarrow> nat" where
  "civil_year era yoe m = yoe + era * 400 + (if m \<le> 2 then 1 else 0)"

text \<open>
  Year, month and day of a day count since 1970-01-01 (proleptic Gregorian
  calendar), computed on the 400-year era that starts on the first of March.
\<close>

definition civil_from_month :: "nat \<Rightarrow> nat \<Rightarrow> nat \<Rightarrow> nat \<Rightarrow> nat \<times> nat \<times> nat" where
  "civil_from_month era yoe doy mp =
     (civil_year era yoe (civil_month mp), civil_month mp, civil_day doy mp)"

definition civil_from_doy :: "nat \<Rightarrow> nat \<Rightarrow> nat \<Rightarrow> nat \<times> nat \<times> nat" where
  "civil_from_doy era yoe doy = civil_from_month era yoe doy (month_index doy)"

definition civil_from_yoe :: "nat \<Rightarrow> nat \<Rightarrow> nat \<Rightarrow> nat \<times> nat \<times> nat" where
  "civil_from_yoe era doe yoe = civil_from_doy era yoe (day_of_year doe yoe)"

definition civil_from_days :: "nat \<Rightarrow> nat \<times> nat \<times> nat" where
  "civil_from_days days =
     civil_from_yoe ((days + 719468) div 146097) ((days + 719468) mod 146097)
       (year_of_era ((days + 719468) mod 146097))"

definition iso_date :: "nat \<times> nat \<times> nat \<Rightarrow> string" where
  "iso_date ymd =
     (case ymd of (y, m, d) \<Rightarrow>
        (if y \<le> 9999 then pad0 4 y else CHR ''+'' # pad0 6 y)
        @ ''-'' @ pad0 2 m @ ''-'' @ pad0 2 d)"

definition iso_time :: "nat \<Rightarrow> string" where
  "iso_time ms =
     pad0 2 (ms div 3600000) @ '':'' @ pad0 2 ((ms div 60000) mod 60) @ '':''
     @ pad0 2 ((ms div 1000) mod 60) @ ''.'' @ pad0 3 (ms mod 1000)"

definition toISOString :: "nat \<Rightarrow> string" where
  "toISOString t =
     iso_date (civil_from_days (t div 86400000)) @ ''T'' @ iso_time (t mod 86400000) @ ''Z''"

subsection \<open>The fence pattern\<close>

text \<open>
  The pattern of \<^verbatim>\<open>addMessage\<close> is
  \<^verbatim>\<open>/```(\w+)?\n([\s\S]*?)```/g\<close>.
  \<open>split_fence s\<close> is the lazy \<^verbatim>\<open>([\s\S]*?)```\<close>: it cuts \<open>s\<close> at the first
  three backticks, giving what is before and what is after them.
\<close>

definition fence :: string where
  "fence = [CHR 0x60, CHR 0x60, CHR 0x60]"

fun split_fence :: "string \<Rightarrow> (string \<times> string) option" where
  "split_fence [] = None"
| "split_fence (c # cs) =
     (if take 3 (c # cs) = fence then Some ([], drop 3 (c # cs))
      else (case split_fence cs of
              None \<Rightarrow> None
            | Some (body, rest) \<Rightarrow> Some (c # body, rest)))"

text \<open>
  One attempt to match the pattern at the start of \<open>s\<close>.  After the opening
  backticks the greedy optional group \<^verbatim>\<open>(\w+)?\<close> takes the longest run of word
  characters (a shorter run is followed by a word character, never by the line
  feed the pattern wants next); the group is undefined when the run is empty.
  The result is group 1, group 2 and the input after the match.
\<close>

definition match_here :: "string \<Rightarrow> (string option \<times> string \<times> string) option" where
  "match_here s =
     (if take 3 s = fence then
        (let r = drop 3 s; w = takeWhile word_char r
         in (case dropWhile word_char r of
               [] \<Rightarrow> None
             | c # after_nl \<Rightarrow>
                 if c = CHR 0x0A then
                   (case split_fence after_nl of
                      None \<Rightarrow> None
                    | Some (body, rest) \<Rightarrow> Some (if w = [] then None else Some w, body, rest))
                 else None))
      else None)"

text \<open>
  \<^verbatim>\<open>regex.exec(content)\<close> from \<^verbatim>\<open>lastIndex\<close>: the leftmost start at which the
  pattern matches.  The input of \<open>exec\<close> is the content from \<^verbatim>\<open>lastIndex\<close> on
  (the pattern never looks behind), and the third component of the result is the
  content from the new \<^verbatim>\<open>lastIndex\<close> on.
\<close>

fun exec :: "string \<Rightarrow> (string option \<times> string \<times> string) option" where
  "exec [] = None"
| "exec (c # cs) =
     (case match_here (c # cs) of
        Some m \<Rightarrow> Some m
      | None \<Rightarrow> exec cs)"

subsection \<open>The category marker\<close>

datatype Category = Frontend | Backend | Database | Config

definition category_name :: "Category \<Rightarrow> string" where
  "category_name c =
     (case c of Frontend \<Rightarrow> ''frontend'' | Backend \<Rightarrow> ''backend''
              | Database \<Rightarrow> ''database'' | Config \<Rightarrow> ''config'')"

text \<open>
  The pattern \<^verbatim>\<open>/\/\/\s*Category:\s*(frontend|backend|database|config)/i\<close>.
  Under the flag \<^verbatim>\<open>i\<close> a code unit matches a letter of the pattern when it is
  that letter in either case.  Each \<^verbatim>\<open>\s*\<close> takes the longest run of white
  space, since what the pattern wants next is not white space.  \<open>marker_here\<close>
  is one attempt at the start of \<open>s\<close>; its result is group 1 after
  \<^verbatim>\<open>toLowerCase()\<close>, which is one of the four category names.
\<close>

definition ci_prefix :: "string \<Rightarrow> string \<Rightarrow> bool" where
  "ci_prefix pat s = (toLowerCase (take (length pat) s) = pat)"

definition marker_here :: "string \<Rightarrow> Category option" where
  "marker_here s =
     (if take 2 s = ''//'' \<and> ci_prefix ''category:'' (dropWhile js_space (drop 2 s)) then
        (if ci_prefix ''frontend'' (dropWhile js_space (drop 9 (dropWhile js_space (drop 2 s))))
         then Some Frontend
         else if ci_prefix ''backend'' (dropWhile js_space (drop 9 (dropWhile js_space (drop 2 s))))
         then Some Backend
         else if ci_prefix ''database'' (dropWhile js_space (drop 9 (dropWhile js_space (drop 2 s))))
         then Some Database
         else if ci_prefix ''config'' (dropWhile js_space (drop 9 (dropWhile js_space (drop 2 s))))
         then Some Config
         else None)
      else None)"

text \<open>\<^verbatim>\<open>code.match(...)\<close>: the leftmost start at which the marker matches.\<close>

fun find_marker :: "string \<Rightarrow> Category option" where
  "find_marker [] = None"
| "find_marker (c # cs) =
     (case marker_here (c # cs) of
        Some g \<Rightarrow> Some g
      | None \<Rightarrow> find_marker cs)"

text \<open>
  \<^verbatim>\<open>(code.match(...)?.[1].toLowerCase() || 'frontend')\<close>: without a match the
  category is \<^verbatim>\<open>'frontend'\<close>.
\<close>

definition category_of :: "string \<Rightarrow> Category" where
  "category_of code = (case find_marker code of Some c \<Rightarrow> c | None \<Rightarrow> Frontend)"

subsection \<open>JavaScript values and \<^verbatim>\<open>JSON.stringify\<close>\<close>

text \<open>
  The values that the stored project list is made of.  A number \<open>VNum m e\<close>
  is the decimal \<open>m * 10 ^ e\<close> (rounding to a double is not modelled); an
  object is the list of its properties in enumeration order.
\<close>

datatype jsval =
    VNull
  | VBool bool
  | VNum int int
  | VStr string
  | VDate nat
  | VArr "jsval list"
  | VObj "(string \<times> jsval) list"

definition hex_char :: "int \<Rightarrow> char" where
  "hex_char d = ''0123456789abcdef'' ! nat (d mod 16)"

text \<open>\<^verbatim>\<open>QuoteJSONString\<close>, one code unit at a time.\<close>

definition quote_char :: "char \<Rightarrow> string" where
  "quote_char c =
     (if c = CHR 0x22 then [CHR 0x5C, CHR 0x22]
      else if c = CHR 0x5C then [CHR 0x5C, CHR 0x5C]
      else if c = CHR 0x08 then [CHR 0x5C, CHR ''b'']
      else if c = CHR 0x09 then [CHR 0x5C, CHR ''t'']
      else if c = CHR 0x0A then [CHR 0x5C, CHR ''n'']
      else if c = CHR 0x0C then [CHR 0x5C, CHR ''f'']
      else if c = CHR 0x0D then [CHR 0x5C, CHR ''r'']
      else if code_unit c < 32 then
        [CHR 0x5C, CHR ''u'', CHR ''0'', CHR ''0'', hex_char (code_unit c div 16), hex_char (code_unit c mod 16)]
      else [c])"

definition quote :: "string \<Rightarrow> string" where
  "quote s = CHR 0x22 # concat (map quote_char s) @ [CHR 0x22]"

text \<open>\<^verbatim>\<open>xs.join(',')\<close>.\<close>

fun join_comma :: "string list \<Rightarrow> string" where
  "join_comma [] = []"
| "join_comma [x] = x"
| "join_comma (x # y # ys) = x @ '','' @ join_comma (y # ys)"

text \<open>
  \<^verbatim>\<open>Number::toString\<close> of \<open>m * 10 ^ e\<close>, for \<open>m\<close> without trailing zeros:
  with \<open>k\<close> digits and the decimal point after the \<open>n\<close>-th, plain notation for
  \<open>-6 < n \<le> 21\<close> and exponent notation otherwise.
\<close>

definition number_digits :: "string \<Rightarrow> int \<Rightarrow> string" where
  "number_digits ds n =
     (let k = int (length ds)
      in if k \<le> n \<and> n \<le> 21 then ds @ replicate (nat (n - k)) (CHR ''0'')
         else if 0 < n \<and> n \<le> 21 then take (nat n) ds @ ''.'' @ drop (nat n) ds
         else if - 6 < n \<and> n \<le> 0 then ''0.'' @ replicate (nat (- n)) (CHR ''0'') @ ds
         else (if k = 1 then ds else take 1 ds @ ''.'' @ drop 1 ds)
              @ ''e'' @ (if 0 \<le> n - 1 then ''+'' else ''-'') @ string_of_nat (nat \<bar>n - 1\<bar>))"

definition number_to_string :: "int \<Rightarrow> int \<Rightarrow> string" where
  "number_to_string m e =
     (if m = 0 then ''0''
      else (if m < 0 then ''-'' else [])
           @ number_digits (string_of_nat (nat \<bar>m\<bar>)) (int (length (string_of_nat (nat \<bar>m\<bar>))) + e))"

text \<open>
  \<^verbatim>\<open>JSON.stringify(value)\<close> without indentation.  A \<^verbatim>\<open>Date\<close> has a
  \<^verbatim>\<open>toJSON\<close> method, so it is written as the string that \<^verbatim>\<open>toISOString\<close> gives.
\<close>

fun JSON_stringify :: "jsval \<Rightarrow> string" where
  "JSON_stringify VNull = ''null''"
| "JSON_stringify (VBool b) = (if b then ''true'' else ''false'')"
| "JSON_stringify (VNum m e) = number_to_string m e"
| "JSON_stringify (VStr s) = quote s"
| "JSON_stringify (VDate t) = quote (toISOString t)"
| "JSON_stringify (VArr xs) = ''['' @ join_comma (map JSON_stringify xs) @ '']''"
| "JSON_stringify (VObj kvs) =
     ''{'' @ join_comma (map (\<lambda>(k, v). quote k @ '':'' @ JSON_stringify v) kvs) @ ''}''"

subsection \<open>\<^verbatim>\<open>JSON.parse\<close>\<close>

text \<open>
  The exceptions: the \<^verbatim>\<open>SyntaxError\<close> of \<^verbatim>\<open>JSON.parse\<close>, and what
  \<^verbatim>\<open>catch (e)\<close> receives from the outbound chat call.  \<open>Unrepresentable\<close> is
  no exception of the program: it marks a text with a \<^verbatim>\<open>\u\<close> escape above
  \<^verbatim>\<open>00FF\<close>, a code unit that \<^typ>\<open>char\<close> does not hold.
\<close>

datatype error = SyntaxError | ChatError string | Unrepresentable

datatype token =
    TLBrace | TRBrace | TLBrack | TRBrack | TColon | TComma
  | TString string | TNumber int int | TTrue | TFalse | TNull

definition json_space :: "char \<Rightarrow> bool" where
  "json_space c = (c = CHR 0x20 \<or> c = CHR 0x09 \<or> c = CHR 0x0A \<or> c = CHR 0x0D)"

definition is_digit :: "char \<Rightarrow> bool" where
  "is_digit c = (48 \<le> code_unit c \<and> code_unit c \<le> 57)"

definition digits_value :: "string \<Rightarrow> int" where
  "digits_value ds = foldl (\<lambda>a c. 10 * a + (code_unit c - 48)) 0 ds"

definition hex_value :: "char \<Rightarrow> int option" where
  "hex_value c =
     (let n = code_unit c
      in if 48 \<le> n \<and> n \<le> 57 then Some (n - 48)
         else if 65 \<le> n \<and> n \<le> 70 then Some (n - 55)
         else if 97 \<le> n \<and> n \<le> 102 then Some (n - 87)
         else None)"

text \<open>The code unit with the value \<open>n\<close> below 256.\<close>

definition char_of_code :: "int \<Rightarrow> char" where
  "char_of_code n =
     Char (odd n) (odd (n div 2)) (odd (n div 4)) (odd (n div 8))
          (odd (n div 16)) (odd (n div 32)) (odd (n div 64)) (odd (n div 128))"

text \<open>The four hexadecimal digits of a \<^verbatim>\<open>\u\<close> escape.\<close>

definition hex4 :: "string \<Rightarrow> int option" where
  "hex4 s =
     (case map hex_value s of
        [Some a, Some b, Some c, Some d] \<Rightarrow> Some (((a * 16 + b) * 16 + c) * 16 + d)
      | _ \<Rightarrow> None)"

definition escape :: "char \<Rightarrow> char option" where
  "escape e =
     (if e = CHR 0x22 then Some (CHR 0x22)
      else if e = CHR 0x5C then Some (CHR 0x5C)
      else if e = CHR ''/'' then Some (CHR ''/'')
      else if e = CHR ''b'' then Some (CHR 0x08)
      else if e = CHR ''f'' then Some (CHR 0x0C)
      else if e = CHR ''n'' then Some (CHR 0x0A)
      else if e = CHR ''r'' then Some (CHR 0x0D)
      else if e = CHR ''t'' then Some (CHR 0x09)
      else None)"

definition cons_char :: "char \<Rightarrow> error + string \<times> string \<Rightarrow> error + string \<times> string" where
  "cons_char c r = (case r of Inl e \<Rightarrow> Inl e | Inr (s, rest) \<Rightarrow> Inr (c # s, rest))"

text \<open>
  The characters of a string literal after its opening quote, up to the closing
  quote: the string and the input after the literal.
\<close>

fun lex_string :: "string \<Rightarrow> error + string \<times> string" where
  "lex_string [] = Inl SyntaxError"
| "lex_string (c # cs) =
     (if c = CHR 0x22 then Inr ([], cs)
      else if c = CHR 0x5C then
        (case cs of
           [] \<Rightarrow> Inl SyntaxError
         | e # cs' \<Rightarrow>
             if e = CHR ''u'' then
               (case hex4 (take 4 cs') of
                  None \<Rightarrow> Inl SyntaxError
                | Some n \<Rightarrow>
                    if n < 256 then cons_char (char_of_code n) (lex_string (drop 4 cs'))
                    else Inl Unrepresentable)
             else
               (case escape e of
                  None \<Rightarrow> Inl SyntaxError
                | Some x \<Rightarrow> cons_char x (lex_string cs')))
      else if code_unit c < 32 then Inl SyntaxError
      else cons_char c (lex_string cs))"

text \<open>
  A number literal: \<^verbatim>\<open>-? (0 | [1-9][0-9]*) (. [0-9]+)? ([eE] [+-]? [0-9]+)?\<close>.
  Each part gives what it read and the input after it.
\<close>

definition lex_integer :: "string \<Rightarrow> (string \<times> string) option" where
  "lex_integer s =
     (if takeWhile is_digit s = [] \<or> (1 < length (takeWhile is_digit s) \<and> take 1 s = ''0'')
      then None
      else Some (takeWhile is_digit s, dropWhile is_digit s))"

definition lex_fraction :: "string \<Rightarrow> (string \<times> string) option" where
  "lex_fraction s =
     (if take 1 s = ''.'' then
        (if takeWhile is_digit (drop 1 s) = [] then None
         else Some (takeWhile is_digit (drop 1 s), dropWhile is_digit (drop 1 s)))
      else Some ([], s))"

definition lex_sign :: "string \<Rightarrow> bool \<times> string" where
  "lex_sign s =
     (if take 1 s = ''-'' then (True, drop 1 s)
      else if take 1 s = ''+'' then (False, drop 1 s)
      else (False, s))"

definition lex_exponent :: "string \<Rightarrow> (int \<times> string) option" where
  "lex_exponent s =
     (if take 1 s = ''e'' \<or> take 1 s = ''E'' then
        (case lex_sign (drop 1 s) of
           (neg, ds) \<Rightarrow>
             if takeWhile is_digit ds = [] then None
             else Some (if neg then - (digits_value (takeWhile is_digit ds))
                        else (digits_value (takeWhile is_digit ds)),
                        dropWhile is_digit ds))
      else Some (0, s))"

text \<open>
  The decimal \<open>m * 10 ^ e\<close> of a literal with the integer digits \<open>ip\<close>, the
  fraction digits \<open>fp\<close> and the exponent \<open>ex\<close>, with no trailing zero in \<open>m\<close>.
\<close>

definition strip_zeros :: "string \<Rightarrow> string" where
  "strip_zeros ds = rev (dropWhile (\<lambda>c. c = CHR ''0'') (rev ds))"

definition decimal :: "bool \<Rightarrow> string \<Rightarrow> string \<Rightarrow> int \<Rightarrow> int \<times> int" where
  "decimal neg ip fp ex =
     (if digits_value (ip @ fp) = 0 then (0, 0)
      else (if neg then - (digits_value (strip_zeros (ip @ fp)))
            else (digits_value (strip_zeros (ip @ fp))),
            ex - int (length fp) + int (length (ip @ fp) - length (strip_zeros (ip @ fp)))))"

definition lex_number :: "string \<Rightarrow> ((int \<times> int) \<times> string) option" where
  "lex_number s =
     (case lex_integer (if take 1 s = ''-'' then drop 1 s else s) of
        None \<Rightarrow> None
      | Some (ip, s2) \<Rightarrow>
          (case lex_fraction s2 of
             None \<Rightarrow> None
           | Some (fp, s3) \<Rightarrow>
               (case lex_exponent s3 of
                  None \<Rightarrow> None
                | Some (ex, rest) \<Rightarrow> Some (decimal (take 1 s = ''-'') ip fp ex, rest))))"

definition cons_token :: "token \<Rightarrow> error + token list \<Rightarrow> error + token list" where
  "cons_token t r = (case r of Inl e \<Rightarrow> Inl e | Inr ts \<Rightarrow> Inr (t # ts))"

lemma cons_char_shorter:
  "cons_char c r = Inr (s, rest) \<Longrightarrow> \<exists>s'. r = Inr (s', rest)"
  by (auto simp: cons_char_def split: sum.splits)

lemma lex_string_shorter:
  "lex_string s = Inr (str, rest) \<Longrightarrow> length rest < length s"
proof (induction s arbitrary: str rule: lex_string.induct)
  case 1
  then show ?case by simp
next
  case (2 c cs)
  show ?case
  proof (cases "c = CHR 0x22")
    case True
    with "2.prems" show ?thesis by simp
  next
    case nq: False
    show ?thesis
    proof (cases "c = CHR 0x5C")
      case False
      with nq "2.prems" obtain s' where "lex_string cs = Inr (s', rest)"
        by (auto split: if_splits dest: cons_char_shorter)
      with "2.IH"(3) [OF nq False] "2.prems" nq False show ?thesis
        by (fastforce split: if_splits)
    next
      case bs: True
      with nq "2.prems" obtain e cs' where cs: "cs = e # cs'"
        by (cases cs) auto
      show ?thesis
      proof (cases "e = CHR ''u''")
        case True
        with nq bs cs "2.prems" obtain n s' where n: "hex4 (take 4 cs') = Some n" "n < 256"
          and r: "lex_string (drop 4 cs') = Inr (s', rest)"
          by (auto split: option.splits if_splits dest: cons_char_shorter)
        from "2.IH"(1) [OF nq bs cs True n] r have "length rest < length (drop 4 cs')" by blast
        then show ?thesis using cs by simp
      next
        case False
        with nq bs cs "2.prems" obtain x s' where x: "escape e = Some x"
          and r: "lex_string cs' = Inr (s', rest)"
          by (auto split: option.splits if_splits dest: cons_char_shorter)
        from "2.IH"(2) [OF nq bs cs False x] r have "length rest < length cs'" by blast
        then show ?thesis using cs by simp
      qed
    qed
  qed
qed

lemma lex_number_shorter:
  assumes "lex_number s = Some (d, rest)"
  shows "length rest < length s"
proof -
  define s1 where "s1 = (if take 1 s = ''-'' then drop 1 s else s)"
  from assms obtain ip s2 fp s3 ex where
    i: "lex_integer s1 = Some (ip, s2)" and f: "lex_fraction s2 = Some (fp, s3)"
    and e: "lex_exponent s3 = Some (ex, rest)"
    by (auto simp: lex_number_def s1_def split: option.splits)
  have "length s1 \<le> length s" by (simp add: s1_def)
  moreover have "length s2 < length s1"
  proof -
    from i have t: "takeWhile is_digit s1 \<noteq> []" and s2: "s2 = dropWhile is_digit s1"
      by (auto simp: lex_integer_def split: if_splits)
    have "length (takeWhile is_digit s1) + length (dropWhile is_digit s1) = length s1"
      by (metis length_append takeWhile_dropWhile_id)
    with t s2 show ?thesis by (cases "takeWhile is_digit s1") auto
  qed
  moreover have "length s3 \<le> length s2"
    using f by (auto simp: lex_fraction_def split: if_splits
        intro: order_trans [OF length_dropWhile_le])
  moreover have "length rest \<le> length s3"
    using e by (auto simp: lex_exponent_def lex_sign_def split: if_splits prod.splits
        intro: order_trans [OF length_dropWhile_le])
  ultimately show ?thesis by linarith
qed

text \<open>The punctuation tokens and the three literal names.\<close>

definition punctuation :: "char \<Rightarrow> token option" where
  "punctuation c =
     (if c = CHR ''{'' then Some TLBrace
      else if c = CHR ''}'' then Some TRBrace
      else if c = CHR ''['' then Some TLBrack
      else if c = CHR '']'' then Some TRBrack
      else if c = CHR '':'' then Some TColon
      else if c = CHR '','' then Some TComma
      else None)"

definition literal_name :: "string \<Rightarrow> (token \<times> string) option" where
  "literal_name s =
     (if take 4 s = ''true'' then Some (TTrue, drop 4 s)
      else if take 5 s = ''false'' then Some (TFalse, drop 5 s)
      else if take 4 s = ''null'' then Some (TNull, drop 4 s)
      else None)"

lemma literal_name_shorter: "literal_name s = Some (t, rest) \<Longrightarrow> length rest < length s"
  by (cases s) (auto simp: literal_name_def split: if_splits)

text \<open>The tokens of a text; white space between tokens is skipped.\<close>

function lex :: "string \<Rightarrow> error + token list" where
  "lex [] = Inr []"
| "lex (c # cs) =
     (if json_space c then lex cs
      else (case punctuation c of
         Some t \<Rightarrow> cons_token t (lex cs)
       | None \<Rightarrow>
          if c = CHR 0x22 then
            (case lex_string cs of
               Inl e \<Rightarrow> Inl e
             | Inr (s, rest) \<Rightarrow> cons_token (TString s) (lex rest))
          else if c = CHR ''-'' \<or> is_digit c then
            (case lex_number (c # cs) of
               None \<Rightarrow> Inl SyntaxError
             | Some (d, rest) \<Rightarrow> cons_token (TNumber (fst d) (snd d)) (lex rest))
          else
            (case literal_name (c # cs) of
               None \<Rightarrow> Inl SyntaxError
             | Some (t, rest) \<Rightarrow> cons_token t (lex rest))))"
  by pat_completeness auto
termination
  by (relation "measure length")
     (auto dest: lex_string_shorter lex_number_shorter literal_name_shorter)

text \<open>
  The properties of an object are enumerated with the array indices first, in
  ascending order, then the other keys in the order of their creation.
  \<open>array_index k\<close> is the value of a key that is an array index.
\<close>

definition array_index :: "string \<Rightarrow> int option" where
  "array_index k =
     (if k \<noteq> [] \<and> list_all is_digit k \<and> (k = ''0'' \<or> take 1 k \<noteq> ''0'')
         \<and> digits_value k < 4294967295
      then Some (digits_value k) else None)"

text \<open>Whether the new key \<open>k\<close> is enumerated before the existing key \<open>k'\<close>.\<close>

definition key_before :: "string \<Rightarrow> string \<Rightarrow> bool" where
  "key_before k k' =
     (case array_index k of
        None \<Rightarrow> False
      | Some n \<Rightarrow> (case array_index k' of None \<Rightarrow> True | Some n' \<Rightarrow> n < n'))"

fun insert_property :: "string \<Rightarrow> jsval \<Rightarrow> (string \<times> jsval) list \<Rightarrow> (string \<times> jsval) list" where
  "insert_property k v [] = [(k, v)]"
| "insert_property k v ((k', v') # kvs) =
     (if key_before k k' then (k, v) # (k', v') # kvs
      else (k', v') # insert_property k v kvs)"

text \<open>
  \<^verbatim>\<open>CreateDataProperty\<close>: a key that the object has keeps its place and takes
  the new value.
\<close>

definition put_property :: "string \<Rightarrow> jsval \<Rightarrow> (string \<times> jsval) list \<Rightarrow> (string \<times> jsval) list" where
  "put_property k v kvs =
     (if k \<in> fst ` set kvs then map (\<lambda>(k', v'). if k' = k then (k', v) else (k', v')) kvs
      else insert_property k v kvs)"

text \<open>
  The parser reads the tokens from left to right with a stack of the arrays
  and objects that are open: \<open>InArr xs\<close> is an array with the elements \<open>xs\<close>
  read so far, \<open>InObj kvs k\<close> an object with the properties \<open>kvs\<close> read so far
  and the key \<open>k\<close> whose value is being read.
\<close>

datatype frame = InArr "jsval list" | InObj "(string \<times> jsval) list" string

datatype pstate =
    PValue "frame list"
  | PArrStart "frame list"
  | PObjStart "frame list"
  | PKey "(string \<times> jsval) list" "frame list"
  | PColon "(string \<times> jsval) list" string "frame list"
  | PAfter jsval "frame list"

text \<open>A token where a value is expected.\<close>

definition value_token :: "frame list \<Rightarrow> token \<Rightarrow> pstate option" where
  "value_token fs t =
     (case t of
        TNull \<Rightarrow> Some (PAfter VNull fs)
      | TTrue \<Rightarrow> Some (PAfter (VBool True) fs)
      | TFalse \<Rightarrow> Some (PAfter (VBool False) fs)
      | TNumber m e \<Rightarrow> Some (PAfter (VNum m e) fs)
      | TString s \<Rightarrow> Some (PAfter (VStr s) fs)
      | TLBrack \<Rightarrow> Some (PArrStart fs)
      | TLBrace \<Rightarrow> Some (PObjStart fs)
      | _ \<Rightarrow> None)"

text \<open>A token after a complete value \<open>v\<close>.\<close>

definition after_token :: "jsval \<Rightarrow> frame list \<Rightarrow> token \<Rightarrow> pstate option" where
  "after_token v fs t =
     (case fs of
        [] \<Rightarrow> None
      | InArr xs # fs' \<Rightarrow>
          (case t of
             TComma \<Rightarrow> Some (PValue (InArr (xs @ [v]) # fs'))
           | TRBrack \<Rightarrow> Some (PAfter (VArr (xs @ [v])) fs')
           | _ \<Rightarrow> None)
      | InObj kvs k # fs' \<Rightarrow>
          (case t of
             TComma \<Rightarrow> Some (PKey (put_property k v kvs) fs')
           | TRBrace \<Rightarrow> Some (PAfter (VObj (put_property k v kvs)) fs')
           | _ \<Rightarrow> None))"

definition step :: "pstate \<Rightarrow> token \<Rightarrow> pstate option" where
  "step st t =
     (case st of
        PValue fs \<Rightarrow> value_token fs t
      | PArrStart fs \<Rightarrow>
          (case t of TRBrack \<Rightarrow> Some (PAfter (VArr []) fs) | _ \<Rightarrow> value_token (InArr [] # fs) t)
      | PObjStart fs \<Rightarrow>
          (case t of
             TRBrace \<Rightarrow> Some (PAfter (VObj []) fs)
           | TString k \<Rightarrow> Some (PColon [] k fs)
           | _ \<Rightarrow> None)
      | PKey kvs fs \<Rightarrow> (case t of TString k \<Rightarrow> Some (PColon kvs k fs) | _ \<Rightarrow> None)
      | PColon kvs k fs \<Rightarrow> (case t of TColon \<Rightarrow> Some (PValue (InObj kvs k # fs)) | _ \<Rightarrow> None)
      | PAfter v fs \<Rightarrow> after_token v fs t)"

fun parse_tokens :: "pstate \<Rightarrow> token list \<Rightarrow> error + jsval" where
  "parse_tokens st [] = (case st of PAfter v [] \<Rightarrow> Inr v | _ \<Rightarrow> Inl SyntaxError)"
| "parse_tokens st (t # ts) =
     (case step st t of None \<Rightarrow> Inl SyntaxError | Some st' \<Rightarrow> parse_tokens st' ts)"

text \<open>
  \<^verbatim>\<open>JSON.parse(text)\<close> without a reviver: \<open>Inl SyntaxError\<close> is the
  \<^verbatim>\<open>SyntaxError\<close> that it throws.
\<close>

definition JSON_parse :: "string \<Rightarrow> error + jsval" where
  "JSON_parse s = (case lex s of Inl e \<Rightarrow> Inl e | Inr ts \<Rightarrow> parse_tokens (PValue []) ts)"

subsection \<open>The data model of \<^verbatim>\<open>types.ts\<close>\<close>

datatype Role = User | Assistant

datatype ProjectStatus = Active | Paused | Archived

datatype ProjectPhase = Onboarding | Architecture | Build | Debug | Deploy

datatype CloudStatus = Synced | Unsynced | Syncing | Conflict

text \<open>
  The optional fields and the shapes that no code of the component builds or
  reads (\<^verbatim>\<open>MetaInsight\<close>, \<^verbatim>\<open>SimulationResult\<close>, \<^verbatim>\<open>Snapshot\<close>,
  \<^verbatim>\<open>GitHubMetadata\<close>, the confidence fields of a snippet) are kept as raw values;
  an absent optional field is \<open>None\<close>.  \<open>timestamp\<close> is the time value of the
  \<^verbatim>\<open>Date\<close>.
\<close>

record Message =
  msg_id :: string
  role :: Role
  content :: string
  timestamp :: nat
  meta :: "jsval option"
  msg_simulation :: "jsval option"

record CodeSnippet =
  snippet_id :: string
  filename :: string
  language :: string
  code :: string
  category :: Category
  explanation :: string
  confidence :: "jsval option"
  lineConfidences :: "jsval option"
  testResults :: "jsval option"

record Workspace =
  messages :: "Message list"
  snippets :: "CodeSnippet list"
  simulation :: jsval
  decisions :: "string list"
  agentAssignments :: "(string \<times> string) list"
  memoryContext :: "(string \<times> jsval) list"

record SyncMetadata =
  lastSyncedAt :: "string option"
  checksum :: "string option"
  cloudStatus :: CloudStatus

record Project =
  projectId :: string
  name :: string
  description :: string
  createdAt :: string
  lastModified :: string
  status :: ProjectStatus
  currentPhase :: ProjectPhase
  aiPersona :: string
  workspace :: Workspace
  snapshots :: "jsval list"
  sync :: SyncMetadata
  export_meta :: "jsval option"

subsection \<open>The project list as a JavaScript value\<close>

definition role_name :: "Role \<Rightarrow> string" where
  "role_name r = (case r of User \<Rightarrow> ''user'' | Assistant \<Rightarrow> ''assistant'')"

definition status_name :: "ProjectStatus \<Rightarrow> string" where
  "status_name x = (case x of Active \<Rightarrow> ''active'' | Paused \<Rightarrow> ''paused'' | Archived \<Rightarrow> ''archived'')"

definition phase_name :: "ProjectPhase \<Rightarrow> string" where
  "phase_name x =
     (case x of Onboarding \<Rightarrow> ''onboarding'' | Architecture \<Rightarrow> ''architecture''
              | Build \<Rightarrow> ''build'' | Debug \<Rightarrow> ''debug'' | Deploy \<Rightarrow> ''deploy'')"

definition cloud_name :: "CloudStatus \<Rightarrow> string" where
  "cloud_name x =
     (case x of Synced \<Rightarrow> ''synced'' | Unsynced \<Rightarrow> ''unsynced''
              | Syncing \<Rightarrow> ''syncing'' | Conflict \<Rightarrow> ''conflict'')"

text \<open>An optional property: present with its value, or not a property at all.\<close>

definition optional :: "string \<Rightarrow> jsval option \<Rightarrow> (string \<times> jsval) list" where
  "optional k v = (case v of None \<Rightarrow> [] | Some x \<Rightarrow> [(k, x)])"

definition nullable :: "string option \<Rightarrow> jsval" where
  "nullable v = (case v of None \<Rightarrow> VNull | Some x \<Rightarrow> VStr x)"

text \<open>
  The object that a record stands for.  \<open>time\<close> says how the time value of a
  message is held: the object that \<^verbatim>\<open>addMessage\<close> builds holds a \<^verbatim>\<open>Date\<close>
  (\<open>time = VDate\<close>).
\<close>

definition message_js :: "(nat \<Rightarrow> jsval) \<Rightarrow> Message \<Rightarrow> jsval" where
  "message_js time m =
     VObj ([(''id'', VStr (msg_id m)), (''role'', VStr (role_name (role m))),
            (''content'', VStr (content m)), (''timestamp'', time (timestamp m))]
           @ optional ''meta'' (meta m) @ optional ''simulation'' (msg_simulation m))"

definition snippet_js :: "CodeSnippet \<Rightarrow> jsval" where
  "snippet_js c =
     VObj ([(''id'', VStr (snippet_id c)), (''filename'', VStr (filename c)),
            (''language'', VStr (language c)), (''code'', VStr (code c)),
            (''category'', VStr (category_name (category c))),
            (''explanation'', VStr (explanation c))]
           @ optional ''confidence'' (confidence c)
           @ optional ''lineConfidences'' (lineConfidences c)
           @ optional ''testResults'' (testResults c))"

definition workspace_js :: "(nat \<Rightarrow> jsval) \<Rightarrow> Workspace \<Rightarrow> jsval" where
  "workspace_js time w =
     VObj [(''messages'', VArr (map (message_js time) (messages w))),
           (''snippets'', VArr (map snippet_js (snippets w))),
           (''simulation'', simulation w),
           (''decisions'', VArr (map VStr (decisions w))),
           (''agentAssignments'', VObj (map (\<lambda>(k, v). (k, VStr v)) (agentAssignments w))),
           (''memoryContext'', VObj (memoryContext w))]"

definition sync_js :: "SyncMetadata \<Rightarrow> jsval" where
  "sync_js y =
     VObj [(''lastSyncedAt'', nullable (lastSyncedAt y)), (''checksum'', nullable (checksum y)),
           (''cloudStatus'', VStr (cloud_name (cloudStatus y)))]"

definition project_js :: "(nat \<Rightarrow> jsval) \<Rightarrow> Project \<Rightarrow> jsval" where
  "project_js time p =
     VObj ([(''projectId'', VStr (projectId p)), (''name'', VStr (name p)),
            (''description'', VStr (description p)), (''createdAt'', VStr (createdAt p)),
            (''lastModified'', VStr (lastModified p)), (''status'', VStr (status_name (status p))),
            (''currentPhase'', VStr (phase_name (currentPhase p))),
            (''aiPersona'', VStr (aiPersona p)),
            (''workspace'', workspace_js time (workspace p)),
            (''snapshots'', VArr (snapshots p)), (''sync'', sync_js (sync p))]
           @ optional ''export'' (export_meta p))"

definition projects_js :: "(nat \<Rightarrow> jsval) \<Rightarrow> Project list \<Rightarrow> jsval" where
  "projects_js time ps = VArr (map (project_js time) ps)"

subsection \<open>The state of the component\<close>

datatype IntelligenceState = Idle | Listening | Thinking | Building

datatype AgentID = Architect | Builder | Reviewer

text \<open>
  The state hooks of \<^verbatim>\<open>App\<close> that the five operations read or write, the
  item \<^verbatim>\<open>codexpro_projects\<close> of \<^verbatim>\<open>localStorage\<close> (\<open>None\<close> when there is no
  such item), the errors written by \<^verbatim>\<open>console.error\<close>, and the platform's
  clock and identifier source: \<open>clock st k\<close> is what the \<open>k\<close>-th reading of
  the time returns and \<open>uuid st k\<close> what the \<open>k\<close>-th call of
  \<^verbatim>\<open>crypto.randomUUID()\<close> returns.
\<close>

record app_state =
  projects :: "Project list"
  currentProject :: "Project option"
  previewContent :: string
  selectedSnippetId :: "string option"
  isSynthesizing :: bool
  intelligenceState :: IntelligenceState
  intelligenceMessage :: string
  activeAgents :: "AgentID list"
  localStorage :: "string option"
  console_errors :: "error list"
  clock :: "nat \<Rightarrow> nat"
  ticks :: nat
  uuid :: "nat \<Rightarrow> string"
  draws :: nat

text \<open>\<^verbatim>\<open>Date.now()\<close> and \<^verbatim>\<open>new Date()\<close>: one reading of the clock.\<close>

definition Date_now :: "app_state \<Rightarrow> nat \<times> app_state" where
  "Date_now st = (clock st (ticks st), st\<lparr>ticks := Suc (ticks st)\<rparr>)"

definition randomUUID :: "app_state \<Rightarrow> string \<times> app_state" where
  "randomUUID st = (uuid st (draws st), st\<lparr>draws := Suc (draws st)\<rparr>)"

subsection \<open>The project store\<close>

text \<open>
  \<^verbatim>\<open>saveProjects(list)\<close>: write the serialised list to the storage item, then
  \<^verbatim>\<open>setProjects(list)\<close>.  The write is taken to succeed (the storage quota is
  not modelled).
\<close>

definition saveProjects :: "Project list \<Rightarrow> app_state \<Rightarrow> app_state" where
  "saveProjects list st =
     st\<lparr>localStorage := Some (JSON_stringify (projects_js VDate list)), projects := list\<rparr>"

text \<open>
  The effect that runs once when \<^verbatim>\<open>App\<close> mounts:
  \<^verbatim>\<open>if (storedProjects) setProjects(JSON.parse(storedProjects))\<close>.
  The result is the value of \<^verbatim>\<open>projects\<close> after the effect (the initial value is
  the empty array; \<^verbatim>\<open>null\<close> and the empty string are falsy), or the exception
  that the effect throws.
\<close>

definition load :: "string option \<Rightarrow> error + jsval" where
  "load storedProjects =
     (case storedProjects of
        None \<Rightarrow> Inr (VArr [])
      | Some s \<Rightarrow> if s = [] then Inr (VArr []) else JSON_parse s)"

text \<open>
  A callback reads the state hooks through the closure of the render that
  created it: \<open>cap\<close> is the state as that render saw it, \<open>st\<close> the state that
  the setters, the storage and the platform act on.  A callback that runs in
  the latest render has \<open>cap = st\<close>.

  \<^verbatim>\<open>createProject(name?)\<close>; \<^verbatim>\<open>name || `Mission ${projects.length + 1}`\<close>
  takes the default for an absent and for an empty name.
\<close>

definition default_name :: "app_state \<Rightarrow> string" where
  "default_name cap = ''Mission '' @ string_of_nat (length (projects cap) + 1)"

definition new_project :: "string \<Rightarrow> string \<Rightarrow> nat \<Rightarrow> nat \<Rightarrow> Project" where
  "new_project u nm t_created t_modified =
     \<lparr>projectId = u, name = nm, description = ''Autonomous engineering session.'',
      createdAt = toISOString t_created, lastModified = toISOString t_modified,
      status = Active, currentPhase = Onboarding, aiPersona = ''CodexPro-Alpha'',
      workspace = \<lparr>messages = [], snippets = [], simulation = VNull, decisions = [],
                   agentAssignments = [], memoryContext = []\<rparr>,
      snapshots = [],
      sync = \<lparr>lastSyncedAt = None, checksum = None, cloudStatus = Unsynced\<rparr>,
      export_meta = None\<rparr>"

definition createProject :: "app_state \<Rightarrow> string option \<Rightarrow> app_state \<Rightarrow> Project \<times> app_state" where
  "createProject cap name_opt st =
     (let (u, st1) = randomUUID st;
          nm = (case name_opt of
                  None \<Rightarrow> default_name cap
                | Some n \<Rightarrow> if n = [] then default_name cap else n);
          (t_created, st2) = Date_now st1;
          (t_modified, st3) = Date_now st2;
          newProject = new_project u nm t_created t_modified;
          updatedList = newProject # projects cap;
          st4 = saveProjects updatedList st3
      in (newProject, st4\<lparr>currentProject := Some newProject\<rparr>))"

subsection \<open>The ingestor: \<^verbatim>\<open>addMessage\<close>\<close>

text \<open>\<^verbatim>\<open>match[1] || 'typescript'\<close>\<close>

definition language_of :: "string option \<Rightarrow> string" where
  "language_of g1 = (case g1 of Some l \<Rightarrow> l | None \<Rightarrow> ''typescript'')"

text \<open>
  The body of the \<^verbatim>\<open>while\<close> loop for one match: the snippet pushed to
  \<^verbatim>\<open>newSnippets\<close>, and \<^verbatim>\<open>setPreviewContent(code)\<close> for a frontend snippet.
\<close>

definition push_snippet :: "string option \<Rightarrow> string \<Rightarrow> app_state \<Rightarrow> CodeSnippet \<times> app_state" where
  "push_snippet g1 body st =
     (let lang = language_of g1;
          cat = category_of body;
          (u, st1) = randomUUID st;
          (t, st2) = Date_now st1;
          snippet = \<lparr>snippet_id = u,
                     filename = category_name cat @ ''-'' @ slice_last4 (string_of_nat t) @ ''.tsx'',
                     language = lang, code = body, category = cat,
                     explanation = ''Synthesized.'',
                     confidence = None, lineConfidences = None, testResults = None\<rparr>
      in (snippet, if cat = Frontend then st2\<lparr>previewContent := body\<rparr> else st2))"

lemma split_fence_shorter:
  "split_fence s = Some (body, rest) \<Longrightarrow> length rest < length s"
  by (induction s arbitrary: body) (auto split: if_splits option.splits)

lemma match_here_shorter:
  "match_here s = Some (g1, body, rest) \<Longrightarrow> length rest < length s"
proof -
  assume m: "match_here s = Some (g1, body, rest)"
  then obtain c after_nl where d: "dropWhile word_char (drop 3 s) = c # after_nl"
    and sp: "split_fence after_nl = Some (body, rest)"
    by (auto simp: match_here_def Let_def split: if_splits list.splits option.splits)
  have "length after_nl < length (dropWhile word_char (drop 3 s))"
    using d by simp
  also have "\<dots> \<le> length (drop 3 s)"
    by (rule length_dropWhile_le)
  finally have "length after_nl < length s"
    by simp
  with split_fence_shorter [OF sp] show ?thesis
    by simp
qed

lemma exec_shorter:
  "exec s = Some (g1, body, rest) \<Longrightarrow> length rest < length s"
proof (induction s)
  case Nil
  then show ?case by simp
next
  case (Cons c cs)
  show ?case
  proof (cases "match_here (c # cs)")
    case None
    with Cons show ?thesis by fastforce
  next
    case (Some m)
    with Cons.prems have "match_here (c # cs) = Some (g1, body, rest)" by simp
    then show ?thesis by (rule match_here_shorter)
  qed
qed

text \<open>
  The loop \<^verbatim>\<open>while ((match = regex.exec(content)) !== null)\<close>: \<open>input\<close> is
  the text from \<^verbatim>\<open>lastIndex\<close> on, and the result is \<^verbatim>\<open>newSnippets\<close>.
\<close>

function extractSnippets :: "string \<Rightarrow> app_state \<Rightarrow> CodeSnippet list \<times> app_state" where
  "extractSnippets input st =
     (case exec input of
        None \<Rightarrow> ([], st)
      | Some (g1, body, rest) \<Rightarrow>
          (case push_snippet g1 body st of
             (snippet, st1) \<Rightarrow>
               (case extractSnippets rest st1 of
                  (others, st2) \<Rightarrow> (snippet # others, st2))))"
  by pat_completeness auto
termination
  by (relation "measure (\<lambda>(input, st). length input)") (auto dest: exec_shorter)

declare extractSnippets.simps [simp del]

text \<open>
  \<^verbatim>\<open>addMessage(role, content, projectOverride?)\<close>.  The result is \<open>None\<close>
  for the early \<^verbatim>\<open>return\<close> without a target project.
\<close>

definition replace_project :: "Project \<Rightarrow> Project list \<Rightarrow> Project list" where
  "replace_project u ps =
     (let updatedList = map (\<lambda>p. if projectId p = projectId u then u else p) ps
      in if find (\<lambda>p. projectId p = projectId u) ps = None then updatedList @ [u]
         else updatedList)"

definition new_message :: "Role \<Rightarrow> string \<Rightarrow> nat \<Rightarrow> nat \<Rightarrow> Message" where
  "new_message r text t_id t_stamp =
     \<lparr>msg_id = string_of_nat t_id, role = r, content = text, timestamp = t_stamp,
      meta = None, msg_simulation = None\<rparr>"

text \<open>
  \<^verbatim>\<open>{...targetProject, lastModified: ..., workspace: {...targetProject.workspace,
  messages: [...messages, newMsg]}}\<close>
\<close>

definition with_message :: "Project \<Rightarrow> Message \<Rightarrow> nat \<Rightarrow> Project" where
  "with_message p m t_modified =
     p\<lparr>lastModified := toISOString t_modified,
       workspace := (workspace p)\<lparr>messages := messages (workspace p) @ [m]\<rparr>\<rparr>"

text \<open>The two statements under \<^verbatim>\<open>if (newSnippets.length > 0)\<close>.\<close>

definition with_snippets :: "Project \<Rightarrow> CodeSnippet list \<Rightarrow> Project" where
  "with_snippets p newSnippets =
     (if newSnippets \<noteq> []
      then p\<lparr>workspace := (workspace p)\<lparr>snippets := snippets (workspace p) @ newSnippets\<rparr>\<rparr>
      else p)"

definition select_last :: "CodeSnippet list \<Rightarrow> app_state \<Rightarrow> app_state" where
  "select_last newSnippets st =
     (if newSnippets \<noteq> []
      then st\<lparr>selectedSnippetId := Some (snippet_id (last newSnippets))\<rparr>
      else st)"

definition addMessage ::
  "app_state \<Rightarrow> Role \<Rightarrow> string \<Rightarrow> Project option \<Rightarrow> app_state \<Rightarrow> Project option \<times> app_state" where
  "addMessage cap r text projectOverride st =
     (case (case projectOverride of Some p \<Rightarrow> Some p | None \<Rightarrow> currentProject cap) of
        None \<Rightarrow> (None, st)
      | Some targetProject \<Rightarrow>
          (let (t_id, st1) = Date_now st;
               (t_stamp, st2) = Date_now st1;
               newMsg = new_message r text t_id t_stamp;
               (t_modified, st3) = Date_now st2;
               (newSnippets, st4) = extractSnippets text st3;
               updatedProject = with_snippets (with_message targetProject newMsg t_modified) newSnippets;
               st5 = (select_last newSnippets st4)\<lparr>currentProject := Some updatedProject\<rparr>
           in (Some updatedProject, saveProjects (replace_project updatedProject (projects cap)) st5)))"

subsection \<open>One turn: \<^verbatim>\<open>handleSendMessage\<close>\<close>

text \<open>
  The outbound call (\<^verbatim>\<open>createAiClient\<close>, \<^verbatim>\<open>startTextChat\<close> on the messages of
  the project, \<^verbatim>\<open>sendMessage\<close>) is a parameter: \<open>chat history text\<close> is
  \<open>Inl e\<close> when the call throws \<open>e\<close>, and \<open>Inr t\<close> when it returns a response
  whose \<^verbatim>\<open>text\<close> is \<open>t\<close> (\<open>None\<close> for \<^verbatim>\<open>undefined\<close>).
\<close>

type_synonym chat = "Message list \<Rightarrow> string \<Rightarrow> error + string option"

text \<open>\<^verbatim>\<open>res.text || 'Mission analysis failed.'\<close>\<close>

definition reply_text :: "string option \<Rightarrow> string" where
  "reply_text t =
     (case t of
        None \<Rightarrow> ''Mission analysis failed.''
      | Some x \<Rightarrow> if x = [] then ''Mission analysis failed.'' else x)"

text \<open>The \<^verbatim>\<open>finally\<close> block.\<close>

definition finally_idle :: "app_state \<Rightarrow> app_state" where
  "finally_idle st = st\<lparr>isSynthesizing := False, intelligenceState := Idle, activeAgents := []\<rparr>"

definition handleSendMessage :: "chat \<Rightarrow> app_state \<Rightarrow> string \<Rightarrow> app_state \<Rightarrow> app_state" where
  "handleSendMessage chat cap text st =
     (if isSynthesizing cap then st
      else
        (let (activeProject, st1) =
               (case currentProject cap of
                  Some p \<Rightarrow> (p, st)
                | None \<Rightarrow> createProject cap None st);
             (updated, st2) = addMessage cap User text (Some activeProject) st1
         in case updated of
              None \<Rightarrow> st2
            | Some updatedProject \<Rightarrow>
                (let st3 = st2\<lparr>isSynthesizing := True, intelligenceState := Thinking,
                              intelligenceMessage := ''Analysing'', activeAgents := [Architect]\<rparr>
                 in finally_idle
                      (case chat (messages (workspace updatedProject)) text of
                         Inl e \<Rightarrow> st3\<lparr>console_errors := console_errors st3 @ [e]\<rparr>
                       | Inr res_text \<Rightarrow>
                           (let st4 = st3\<lparr>intelligenceState := Building,
                                         intelligenceMessage := ''Compiling'',
                                         activeAgents := [Builder]\<rparr>;
                                st5 = st4\<lparr>activeAgents := [Reviewer],
                                         intelligenceMessage := ''Reviewing''\<rparr>
                            in snd (addMessage cap Assistant (reply_text res_text)
                                      (Some updatedProject) st5))))))"

text \<open>
  The two callers of \<^verbatim>\<open>handleSendMessage\<close>.  \<^verbatim>\<open>handleSubmit\<close> of \<^verbatim>\<open>InputBar\<close>
  sends the trimmed value of its text input, unless that is empty or the bar is
  disabled (\<^verbatim>\<open>disabled={isSynthesizing || showOnboarding}\<close>); the input is an
  \<^verbatim>\<open><input type="text">\<close>, whose value holds no line break.  \<^verbatim>\<open>onSelect\<close> of the
  prompt guide sends one of the four prompts of \<^verbatim>\<open>suggestions\<close>, after a
  \<^verbatim>\<open>createProject()\<close> of its own when there is no current project.  The input
  value that both callbacks also set is no part of the state modelled here.
\<close>

definition suggestions :: "string list" where
  "suggestions =
     [''Build a full-stack high-fidelity dashboard in React.'',
      ''Help me debug this broken TypeScript function.'',
      ''Design a scalable PostgreSQL schema for an e-commerce platform.'',
      ''Optimise this component for performance.'']"

definition trim :: "string \<Rightarrow> string" where
  "trim s = rev (dropWhile js_space (rev (dropWhile js_space s)))"

definition showOnboarding :: "app_state \<Rightarrow> bool" where
  "showOnboarding cap =
     (case currentProject cap of
        None \<Rightarrow> False
      | Some p \<Rightarrow> currentPhase p = Onboarding \<and> messages (workspace p) = [])"

definition handleSubmit :: "chat \<Rightarrow> app_state \<Rightarrow> string \<Rightarrow> app_state \<Rightarrow> app_state" where
  "handleSubmit chat cap internalValue st =
     (if trim internalValue \<noteq> [] \<and> \<not> (isSynthesizing cap \<or> showOnboarding cap)
      then handleSendMessage chat cap (trim internalValue) st
      else st)"

definition onSelect :: "chat \<Rightarrow> app_state \<Rightarrow> string \<Rightarrow> app_state \<Rightarrow> app_state" where
  "onSelect chat cap p st =
     handleSendMessage chat cap p
       (if currentProject cap = None then snd (createProject cap None st) else st)"

subsection \<open>Views used to state the properties\<close>

text \<open>
  The language, code and category of the snippets that the loop of
  \<^verbatim>\<open>addMessage\<close> builds for an input, in the order of the matches.
\<close>

function fences :: "string \<Rightarrow> (string \<times> string \<times> Category) list" where
  "fences input =
     (case exec input of
        None \<Rightarrow> []
      | Some (g1, body, rest) \<Rightarrow> (language_of g1, body, category_of body) # fences rest)"
  by pat_completeness auto
termination
  by (relation "measure length") (auto dest: exec_shorter)

declare fences.simps [simp del]

definition snippet_view :: "CodeSnippet \<Rightarrow> string \<times> string \<times> Category" where
  "snippet_view c = (language c, code c, category c)"

text \<open>Three backticks somewhere in \<open>s\<close>.\<close>

fun has_fence :: "string \<Rightarrow> bool" where
  "has_fence [] = False"
| "has_fence (c # cs) = (take 3 (c # cs) = fence \<or> has_fence cs)"

text \<open>
  The project that \<^verbatim>\<open>addMessage\<close> returns for the target project \<open>p\<close>: the
  clock is read three times before the loop starts.
\<close>

definition ingested :: "Project \<Rightarrow> Role \<Rightarrow> string \<Rightarrow> app_state \<Rightarrow> Project" where
  "ingested p r text st =
     with_snippets
       (with_message p (new_message r text (clock st (ticks st)) (clock st (Suc (ticks st))))
          (clock st (Suc (Suc (ticks st)))))
       (fst (extractSnippets text (st\<lparr>ticks := Suc (Suc (Suc (ticks st)))\<rparr>)))"

definition frontend_codes :: "(string \<times> string \<times> Category) list \<Rightarrow> string list" where
  "frontend_codes fs = map (\<lambda>(l, b, c). b) (filter (\<lambda>(l, b, c). c = Frontend) fs)"

text \<open>
  The project that a turn runs on, and the state in which its first
  \<^verbatim>\<open>addMessage\<close> starts: \<^verbatim>\<open>handleSendMessage\<close> creates a project when there is
  no current one.
\<close>

definition turn_project :: "app_state \<Rightarrow> app_state \<Rightarrow> Project" where
  "turn_project cap st =
     (case currentProject cap of Some p \<Rightarrow> p | None \<Rightarrow> fst (createProject cap None st))"

definition turn_start :: "app_state \<Rightarrow> app_state \<Rightarrow> app_state" where
  "turn_start cap st =
     (case currentProject cap of Some p \<Rightarrow> st | None \<Rightarrow> snd (createProject cap None st))"

text \<open>
  What \<^verbatim>\<open>JSON.stringify\<close> writes of a value, as tokens and as the value that
  the text denotes: a \<^verbatim>\<open>Date\<close> is written as a string, everything else as
  itself.
\<close>

fun separated :: "token list list \<Rightarrow> token list" where
  "separated [] = []"
| "separated [x] = x"
| "separated (x # y # ys) = x @ TComma # separated (y # ys)"

fun tokens :: "jsval \<Rightarrow> token list" where
  "tokens VNull = [TNull]"
| "tokens (VBool b) = [if b then TTrue else TFalse]"
| "tokens (VNum m e) = [TNumber m e]"
| "tokens (VStr s) = [TString s]"
| "tokens (VDate t) = [TString (toISOString t)]"
| "tokens (VArr xs) = TLBrack # separated (map tokens xs) @ [TRBrack]"
| "tokens (VObj kvs) =
     TLBrace # separated (map (\<lambda>(k, v). TString k # TColon # tokens v) kvs) @ [TRBrace]"

fun serialized :: "jsval \<Rightarrow> jsval" where
  "serialized (VDate t) = VStr (toISOString t)"
| "serialized (VArr xs) = VArr (map serialized xs)"
| "serialized (VObj kvs) = VObj (map (\<lambda>(k, v). (k, serialized v)) kvs)"
| "serialized v = v"

text \<open>
  The values that the component itself builds: no number in them, and in every
  object the keys are distinct and listed in enumeration order (no key that is
  an array index after another key that is not one or that is a larger index).
\<close>

fun plain :: "jsval \<Rightarrow> bool" where
  "plain (VNum m e) = False"
| "plain (VArr xs) = (\<forall>x \<in> set xs. plain x)"
| "plain (VObj kvs) =
     (distinct (map fst kvs) \<and> sorted_wrt (\<lambda>k k'. \<not> key_before k' k) (map fst kvs)
      \<and> (\<forall>(k, v) \<in> set kvs. plain v))"
| "plain v = True"

definition cons_tokens :: "token list \<Rightarrow> error + token list \<Rightarrow> error + token list" where
  "cons_tokens ts r = (case r of Inl e \<Rightarrow> Inl e | Inr ts' \<Rightarrow> Inr (ts @ ts'))"

text \<open>The identifiers that \<^verbatim>\<open>crypto.randomUUID()\<close> has returned so far.\<close>

definition drawn :: "app_state \<Rightarrow> string list" where
  "drawn st = map (uuid st) [0..<draws st]"

text \<open>
  A project and two states to evaluate the operations on: a state with one
  project, which is the current one and whose identifier was the first one
  drawn, and the state of a session that has no project yet.
\<close>

definition sample_project :: Project where
  "sample_project = new_project ''uuid-0'' ''Mission 1'' 1699999990000 1699999990000"

definition sample_state :: app_state where
  "sample_state =
     \<lparr>projects = [sample_project], currentProject = Some sample_project,
      previewContent = [], selectedSnippetId = None, isSynthesizing = False,
      intelligenceState = Idle, intelligenceMessage = [], activeAgents = [],
      localStorage = None, console_errors = [],
      clock = (\<lambda>k. 1700000000000 + k), ticks = 0,
      uuid = (\<lambda>k. ''uuid-'' @ string_of_nat k), draws = 1\<rparr>"

definition empty_state :: app_state where
  "empty_state = sample_state\<lparr>projects := [], currentProject := None, draws := 0\<rparr>"

text \<open>The sample project after \<^verbatim>\<open>addMessage('user', 'hi')\<close>.\<close>

definition chat_project :: Project where
  "chat_project = ingested sample_project User ''hi'' sample_state"

section \<open>Properties of the fence pattern\<close>

lemma fence_length [simp]: "length fence = 3"
  by (simp add: fence_def)

lemma has_fence_iff: "has_fence s \<longleftrightarrow> (\<exists>i. take 3 (drop i s) = fence)"
proof (induction s)
  case Nil
  then show ?case by (simp add: fence_def)
next
  case (Cons c cs)
  show ?case
  proof
    assume "has_fence (c # cs)"
    then consider "take 3 (c # cs) = fence" | "has_fence cs" by auto
    then show "\<exists>i. take 3 (drop i (c # cs)) = fence"
    proof cases
      case 1
      then have "take 3 (drop 0 (c # cs)) = fence" by simp
      then show ?thesis by blast
    next
      case 2
      with Cons obtain i where "take 3 (drop i cs) = fence" by blast
      then have "take 3 (drop (Suc i) (c # cs)) = fence" by simp
      then show ?thesis by blast
    qed
  next
    assume "\<exists>i. take 3 (drop i (c # cs)) = fence"
    then obtain i where i: "take 3 (drop i (c # cs)) = fence" by blast
    show "has_fence (c # cs)"
    proof (cases i)
      case 0
      with i show ?thesis by simp
    next
      case (Suc j)
      with i have "take 3 (drop j cs) = fence" by simp
      with Cons have "has_fence cs" by blast
      then show ?thesis by simp
    qed
  qed
qed



lemma split_fence_None_iff: "split_fence s = None \<longleftrightarrow> \<not> has_fence s"
  by (induction s) (auto split: option.splits)

lemma split_fence_Some: "split_fence s = Some (b, r) \<Longrightarrow> s = b @ fence @ r"
proof (induction s arbitrary: b)
  case Nil
  then show ?case by simp
next
  case (Cons c cs)
  show ?case
  proof (cases "take 3 (c # cs) = fence")
    case True
    with Cons.prems have b: "b = []" and r: "r = drop 3 (c # cs)" by auto
    have "c # cs = fence @ r" unfolding r using True by (metis append_take_drop_id)
    with b show ?thesis by simp
  next
    case False
    with Cons.prems obtain b' where "split_fence cs = Some (b', r)" "b = c # b'"
      by (auto split: option.splits)
    with Cons.IH show ?thesis by simp
  qed
qed

lemma not_word_char_nl [simp]: "\<not> word_char (CHR 0x0A)"
  by (simp add: word_char_def code_unit_def)

lemma not_word_char_bt [simp]: "\<not> word_char (CHR 0x60)"
  by (simp add: word_char_def code_unit_def)

lemma match_here_Some:
  assumes "match_here s = Some (g1, b, r)"
  shows "\<exists>w. s = fence @ w @ CHR 0x0A # b @ fence @ r \<and> list_all word_char w
            \<and> g1 = (if w = [] then None else Some w)"
proof -
  from assms have t: "take 3 s = fence"
    by (auto simp: match_here_def split: if_splits)
  define w where "w = takeWhile word_char (drop 3 s)"
  from assms t obtain after_nl where d: "dropWhile word_char (drop 3 s) = CHR 0x0A # after_nl"
    and sp: "split_fence after_nl = Some (b, r)" and g: "g1 = (if w = [] then None else Some w)"
    by (auto simp: match_here_def Let_def w_def split: if_splits list.splits option.splits)
  have "s = take 3 s @ drop 3 s" by (simp only: append_take_drop_id)
  also have "drop 3 s = w @ dropWhile word_char (drop 3 s)" by (simp add: w_def)
  finally have "s = fence @ w @ CHR 0x0A # b @ fence @ r"
    using t d split_fence_Some [OF sp] by simp
  moreover have "list_all word_char w"
    by (simp add: w_def list_all_iff) (meson set_takeWhileD)
  ultimately show ?thesis using g by blast
qed

lemma split_fence_exact:
  "\<not> has_fence (b @ [CHR 0x60, CHR 0x60]) \<Longrightarrow> split_fence (b @ fence @ r) = Some (b, r)"
proof (induction b)
  case Nil
  then show ?case by (simp add: fence_def)
next
  case (Cons c cs)
  from Cons.prems have n: "take 3 (c # cs @ [CHR 0x60, CHR 0x60]) \<noteq> fence"
    and h: "\<not> has_fence (cs @ [CHR 0x60, CHR 0x60])" by auto
  have "take 2 (cs @ fence @ r) = take 2 (cs @ [CHR 0x60, CHR 0x60])"
  proof (cases cs)
    case Nil
    then show ?thesis by (simp add: fence_def)
  next
    case (Cons x xs)
    then show ?thesis by (cases xs) (simp_all add: fence_def)
  qed
  with n have "take 3 ((c # cs) @ fence @ r) \<noteq> fence"
    by (simp add: numeral_3_eq_3 numeral_2_eq_2)
  with Cons.IH [OF h] show ?case by simp
qed

lemma closing_fence_first:
  assumes "\<not> has_fence b" and "b = [] \<or> last b \<noteq> CHR 0x60"
  shows "\<not> has_fence (b @ [CHR 0x60, CHR 0x60])"
  using assms
proof (induction b)
  case Nil
  then show ?case by (simp add: fence_def)
next
  case (Cons c cs)
  from Cons.prems have h: "\<not> has_fence cs" and t: "take 3 (c # cs) \<noteq> fence" by auto
  from Cons.prems have l: "cs = [] \<or> last cs \<noteq> CHR 0x60" by auto
  have "take 3 (c # cs @ [CHR 0x60, CHR 0x60]) \<noteq> fence"
  proof (cases cs)
    case Nil
    with Cons.prems show ?thesis by (simp add: fence_def)
  next
    case outer: (Cons x xs)
    show ?thesis
    proof (cases xs)
      case Nil
      with outer Cons.prems show ?thesis by (simp add: fence_def)
    next
      case (Cons y ys)
      with outer t show ?thesis by simp
    qed
  qed
  with Cons.IH [OF h l] show ?case by simp
qed

lemma takeWhile_word_run:
  "list_all word_char w \<Longrightarrow> takeWhile word_char (w @ CHR 0x0A # x) = w"
  by (induction w) simp_all

lemma dropWhile_word_run:
  "list_all word_char w \<Longrightarrow> dropWhile word_char (w @ CHR 0x0A # x) = CHR 0x0A # x"
  by (induction w) simp_all

lemma match_here_fenced:
  assumes "list_all word_char w" and "split_fence x = Some (b, r)"
  shows "match_here (fence @ w @ CHR 0x0A # x) = Some (if w = [] then None else Some w, b, r)"
  using assms
  by (simp add: match_here_def takeWhile_word_run dropWhile_word_run)

lemma exec_skip:
  "(\<And>i. i < length pre \<Longrightarrow> match_here (drop i (pre @ s)) = None) \<Longrightarrow> exec (pre @ s) = exec s"
proof (induction pre)
  case Nil
  then show ?case by simp
next
  case (Cons c cs)
  have "match_here (drop 0 ((c # cs) @ s)) = None"
    by (rule Cons.prems) simp
  then have "exec ((c # cs) @ s) = exec (cs @ s)" by simp
  also have "\<dots> = exec s"
  proof (rule Cons.IH)
    fix i assume "i < length cs"
    then have "match_here (drop (Suc i) ((c # cs) @ s)) = None"
      by (intro Cons.prems) simp
    then show "match_here (drop i (cs @ s)) = None" by simp
  qed
  finally show ?case .
qed

lemma match_here_shape:
  assumes "match_here t = Some m"
  shows "take 3 t = fence \<and> 3 < length t \<and> t ! 3 \<noteq> CHR 0x60"
proof -
  obtain g1 b r where "m = (g1, b, r)" by (cases m)
  with assms match_here_Some obtain w where
    t: "t = fence @ w @ CHR 0x0A # b @ fence @ r" and w: "list_all word_char w" by blast
  have "(w @ CHR 0x0A # b @ fence @ r) ! 0 \<noteq> CHR 0x60"
    using w by (cases w) auto
  then show ?thesis
    by (simp add: t nth_append)
qed

lemma no_match_before_fence:
  assumes "\<not> has_fence pre" and "i < length pre"
  shows "match_here (drop i (pre @ fence @ x)) = None"
proof (rule ccontr)
  assume "match_here (drop i (pre @ fence @ x)) \<noteq> None"
  then obtain m where "match_here (drop i (pre @ fence @ x)) = Some m" by blast
  from match_here_shape [OF this]
  have t: "take 3 (drop i (pre @ fence @ x)) = fence"
    and n: "drop i (pre @ fence @ x) ! 3 \<noteq> CHR 0x60" by auto
  show False
  proof (cases "i + 3 \<le> length pre")
    case True
    with t have "take 3 (drop i pre) = fence" by simp
    with assms(1) show False unfolding has_fence_iff by blast
  next
    case False
    with assms(2) have "i + 3 - length pre = 1 \<or> i + 3 - length pre = 2" by arith
    moreover have "drop i (pre @ fence @ x) ! 3 = (pre @ fence @ x) ! (i + 3)"
      using assms(2) by (intro nth_drop) simp
    moreover have "(pre @ fence @ x) ! (i + 3) = (fence @ x) ! (i + 3 - length pre)"
      using False by (simp only: nth_append) simp
    ultimately show False using n by (auto simp: fence_def)
  qed
qed

lemma exec_at_fence:
  assumes "\<not> has_fence pre"
  shows "exec (pre @ fence @ x) = exec (fence @ x)"
  by (rule exec_skip) (rule no_match_before_fence [OF assms])

lemma exec_match: "match_here s = Some m \<Longrightarrow> exec s = Some m"
  by (cases s) (simp_all add: match_here_def fence_def)

lemma exec_fenced:
  assumes "\<not> has_fence pre" and "list_all word_char w"
    and "\<not> has_fence b" and "b = [] \<or> last b \<noteq> CHR 0x60"
  shows "exec (pre @ fence @ w @ CHR 0x0A # b @ fence @ r)
           = Some (if w = [] then None else Some w, b, r)"
proof -
  have "split_fence (b @ fence @ r) = Some (b, r)"
    by (rule split_fence_exact) (rule closing_fence_first [OF assms(3,4)])
  with assms(2) have "match_here (fence @ w @ CHR 0x0A # b @ fence @ r)
      = Some (if w = [] then None else Some w, b, r)"
    by (rule match_here_fenced)
  then have "exec (fence @ w @ CHR 0x0A # b @ fence @ r)
      = Some (if w = [] then None else Some w, b, r)"
    by (rule exec_match)
  with exec_at_fence [OF assms(1)] show ?thesis by simp
qed

lemma exec_Some_match:
  "exec s = Some m \<Longrightarrow> \<exists>i. match_here (drop i s) = Some m"
proof (induction s)
  case Nil
  then show ?case by simp
next
  case (Cons c cs)
  show ?case
  proof (cases "match_here (c # cs)")
    case None
    with Cons.prems have "exec cs = Some m" by simp
    with Cons.IH obtain i where "match_here (drop i cs) = Some m" by blast
    then have "match_here (drop (Suc i) (c # cs)) = Some m" by simp
    then show ?thesis by blast
  next
    case (Some m')
    with Cons.prems have "match_here (drop 0 (c # cs)) = Some m" by simp
    then show ?thesis by blast
  qed
qed



text \<open>The pattern wants a line feed after the opening backticks.\<close>

lemma exec_single_line:
  assumes "CHR 0x0A \<notin> set s"
  shows "exec s = None"
proof (rule ccontr)
  assume "exec s \<noteq> None"
  then obtain m where "exec s = Some m" by blast
  from exec_Some_match [OF this] obtain i where i: "match_here (drop i s) = Some m" by blast
  obtain g1 b r where "m = (g1, b, r)" by (cases m)
  with i match_here_Some obtain w where "drop i s = fence @ w @ CHR 0x0A # b @ fence @ r"
    by blast
  then have "CHR 0x0A \<in> set (drop i s)" by simp
  then have "CHR 0x0A \<in> set s" by (rule in_set_dropD)
  with assms show False by simp
qed

section \<open>Properties of the category marker\<close>

lemma lower_char_cases:
  "lower_char x = x \<or> (x, lower_char x) \<in> set (zip ''ABCDEFGHIJKLMNOPQRSTUVWXYZ'' ''abcdefghijklmnopqrstuvwxyz'')"
proof (cases "map_of (zip ''ABCDEFGHIJKLMNOPQRSTUVWXYZ'' ''abcdefghijklmnopqrstuvwxyz'') x")
  case None
  then show ?thesis by (simp only: lower_char_def option.case) simp
next
  case (Some l)
  then have "(x, l) \<in> set (zip ''ABCDEFGHIJKLMNOPQRSTUVWXYZ'' ''abcdefghijklmnopqrstuvwxyz'')"
    by (rule map_of_SomeD)
  moreover have "lower_char x = l" using Some by (simp only: lower_char_def option.case)
  ultimately show ?thesis by blast
qed

lemma upper_of_initial:
  "(x, CHR ''c'') \<in> set (zip ''ABCDEFGHIJKLMNOPQRSTUVWXYZ'' ''abcdefghijklmnopqrstuvwxyz'')
     \<Longrightarrow> x = CHR ''C''"
  "(x, CHR ''f'') \<in> set (zip ''ABCDEFGHIJKLMNOPQRSTUVWXYZ'' ''abcdefghijklmnopqrstuvwxyz'')
     \<Longrightarrow> x = CHR ''F''"
  "(x, CHR ''b'') \<in> set (zip ''ABCDEFGHIJKLMNOPQRSTUVWXYZ'' ''abcdefghijklmnopqrstuvwxyz'')
     \<Longrightarrow> x = CHR ''B''"
  "(x, CHR ''d'') \<in> set (zip ''ABCDEFGHIJKLMNOPQRSTUVWXYZ'' ''abcdefghijklmnopqrstuvwxyz'')
     \<Longrightarrow> x = CHR ''D''"
  by simp_all

lemma lower_char_initial:
  assumes "lower_char x \<in> {CHR ''c'', CHR ''f'', CHR ''b'', CHR ''d''}"
  shows "\<not> js_space x"
proof -
  have "x \<in> {CHR ''c'', CHR ''f'', CHR ''b'', CHR ''d'', CHR ''C'', CHR ''F'', CHR ''B'', CHR ''D''}"
  proof (cases "lower_char x = x")
    case True
    then have "x \<in> {CHR ''c'', CHR ''f'', CHR ''b'', CHR ''d''}"
      using assms by (simp only:)
    then show ?thesis by blast
  next
    case False
    with lower_char_cases [of x]
    have z: "(x, lower_char x) \<in> set (zip ''ABCDEFGHIJKLMNOPQRSTUVWXYZ'' ''abcdefghijklmnopqrstuvwxyz'')"
      by blast
    from assms consider "lower_char x = CHR ''c''" | "lower_char x = CHR ''f''"
      | "lower_char x = CHR ''b''" | "lower_char x = CHR ''d''" by blast
    then show ?thesis
    proof cases
      case 1
      with z have "x = CHR ''C''" by (simp only: upper_of_initial(1))
      then show ?thesis by blast
    next
      case 2
      with z have "x = CHR ''F''" by (simp only: upper_of_initial(2))
      then show ?thesis by blast
    next
      case 3
      with z have "x = CHR ''B''" by (simp only: upper_of_initial(3))
      then show ?thesis by blast
    next
      case 4
      with z have "x = CHR ''D''" by (simp only: upper_of_initial(4))
      then show ?thesis by blast
    qed
  qed
  then show ?thesis by (auto simp: js_space_def code_unit_def)
qed

lemma dropWhile_run:
  "list_all P ws \<Longrightarrow> \<not> P x \<Longrightarrow> dropWhile P (ws @ x # r) = x # r"
  by (induction ws) simp_all

lemma category_name_initial:
  "\<exists>y ys. category_name c = y # ys \<and> y \<in> {CHR ''c'', CHR ''f'', CHR ''b'', CHR ''d''}"
  by (cases c) (simp_all add: category_name_def)

lemma ci_prefix_initial:
  assumes "ci_prefix (y # ys) (n # ns)"
  shows "lower_char n = y"
  using assms by (simp add: ci_prefix_def toLowerCase_def)

lemma ci_prefix_append:
  "toLowerCase nm = pat \<Longrightarrow> ci_prefix pat (nm @ z)"
  by (auto simp: ci_prefix_def toLowerCase_def)

lemma marker_here_matches:
  assumes ws1: "list_all js_space ws1" and ws2: "list_all js_space ws2"
    and kw: "toLowerCase kw = ''category:''" and nm: "toLowerCase nm = category_name c"
  shows "marker_here (''//'' @ ws1 @ kw @ ws2 @ nm @ z) = Some c"
proof -
  from kw obtain k ks where k: "kw = k # ks" and lk: "lower_char k = CHR ''c''"
    by (cases kw) (auto simp: toLowerCase_def)
  have "length (toLowerCase kw) = length ''category:''" by (simp only: kw)
  then have len: "length kw = 9" by (simp add: toLowerCase_def)
  from category_name_initial [of c] obtain y ys where
    y: "category_name c = y # ys" "y \<in> {CHR ''c'', CHR ''f'', CHR ''b'', CHR ''d''}" by blast
  with nm obtain n ns where n: "nm = n # ns" and ln: "lower_char n = y"
    by (cases nm) (auto simp: toLowerCase_def)
  have nk: "\<not> js_space k" by (rule lower_char_initial) (simp add: lk)
  have nn: "\<not> js_space n" using y(2) by (intro lower_char_initial) (simp add: ln)
  have d1: "dropWhile js_space (drop 2 (''//'' @ ws1 @ kw @ ws2 @ nm @ z)) = kw @ ws2 @ nm @ z"
    unfolding k using dropWhile_run [OF ws1 nk] by simp
  have p1: "ci_prefix ''category:'' (kw @ ws2 @ nm @ z)"
    using kw by (rule ci_prefix_append)
  have d2: "dropWhile js_space (drop 9 (kw @ ws2 @ nm @ z)) = nm @ z"
    unfolding n using dropWhile_run [OF ws2 nn] len by simp
  have p2: "ci_prefix (category_name c) (nm @ z)"
    using nm by (rule ci_prefix_append)
  have other: "\<not> ci_prefix (category_name c') (nm @ z)" if "c' \<noteq> c" for c'
  proof
    assume a: "ci_prefix (category_name c') (nm @ z)"
    from category_name_initial [of c'] obtain y' ys' where y': "category_name c' = y' # ys'" by blast
    with a n have "lower_char n = y'" by (auto dest: ci_prefix_initial)
    with ln y y' have "hd (category_name c') = hd (category_name c)" by simp
    with that show False by (cases c; cases c') (simp_all add: category_name_def)
  qed
  have names: "category_name Frontend = ''frontend''" "category_name Backend = ''backend''"
    "category_name Database = ''database''" "category_name Config = ''config''"
    by (simp_all add: category_name_def)
  have t: "take 2 (''//'' @ ws1 @ kw @ ws2 @ nm @ z) = ''//''" by simp
  have "marker_here (''//'' @ ws1 @ kw @ ws2 @ nm @ z) =
     (if ci_prefix (category_name Frontend) (nm @ z) then Some Frontend
      else if ci_prefix (category_name Backend) (nm @ z) then Some Backend
      else if ci_prefix (category_name Database) (nm @ z) then Some Database
      else if ci_prefix (category_name Config) (nm @ z) then Some Config
      else None)"
    unfolding marker_here_def d1 d2 t names using p1 by (simp only: simp_thms if_True)
  also have "\<dots> = Some c"
    using p2 other [of Frontend] other [of Backend] other [of Database] other [of Config]
    by (cases c) simp_all
  finally show ?thesis .
qed

lemma find_marker_skip:
  "CHR ''/'' \<notin> set a \<Longrightarrow> find_marker (a @ s) = find_marker s"
proof (induction a)
  case Nil
  then show ?case by simp
next
  case (Cons x xs)
  have "take 2 (x # xs @ s) = x # take 1 (xs @ s)" by (simp add: numeral_2_eq_2)
  with Cons.prems have "take 2 (x # xs @ s) \<noteq> ''//''" by auto
  then have "marker_here (x # xs @ s) = None" by (simp only: marker_here_def simp_thms if_False)
  with Cons show ?case by simp
qed

lemma find_marker_here: "marker_here s = Some c \<Longrightarrow> find_marker s = Some c"
  by (cases s) (simp_all add: marker_here_def)

lemma category_of_marker:
  assumes "CHR ''/'' \<notin> set a" and "list_all js_space ws1" and "list_all js_space ws2"
    and "toLowerCase kw = ''category:''" and "toLowerCase nm = category_name c"
  shows "category_of (a @ ''//'' @ ws1 @ kw @ ws2 @ nm @ z) = c"
  using find_marker_skip [OF assms(1)] find_marker_here [OF marker_here_matches [OF assms(2-5)]]
  by (simp add: category_of_def)

lemma category_of_unmarked: "CHR ''/'' \<notin> set body \<Longrightarrow> category_of body = Frontend"
  using find_marker_skip [of body "[]"] by (simp add: category_of_def)

lemma find_marker_None:
  "(\<And>i. marker_here (drop i s) = None) \<Longrightarrow> find_marker s = None"
proof (induction s)
  case Nil
  then show ?case by simp
next
  case (Cons x xs)
  have "marker_here (drop 0 (x # xs)) = None" by (rule Cons.prems)
  moreover have "find_marker xs = None"
  proof (rule Cons.IH)
    fix i
    have "marker_here (drop (Suc i) (x # xs)) = None" by (rule Cons.prems)
    then show "marker_here (drop i xs) = None" by simp
  qed
  ultimately show ?case by simp
qed

lemma category_of_no_marker:
  "(\<And>i. marker_here (drop i body) = None) \<Longrightarrow> category_of body = Frontend"
  by (simp add: category_of_def find_marker_None)

text \<open>
  The marker of a body is the leftmost one, and a place matches the marker
  pattern only if it reads as the pattern says.
\<close>

lemma find_marker_first:
  "(\<And>i. i < length a \<Longrightarrow> marker_here (drop i (a @ s)) = None)
    \<Longrightarrow> find_marker (a @ s) = find_marker s"
proof (induction a)
  case Nil
  then show ?case by simp
next
  case (Cons x xs)
  have "marker_here (drop 0 ((x # xs) @ s)) = None" by (rule Cons.prems) simp
  then have h: "marker_here (x # xs @ s) = None" by simp
  have "find_marker (xs @ s) = find_marker s"
  proof (rule Cons.IH)
    fix i
    assume "i < length xs"
    then have "marker_here (drop (Suc i) ((x # xs) @ s)) = None"
      by (intro Cons.prems) simp
    then show "marker_here (drop i (xs @ s)) = None" by simp
  qed
  with h show ?case by simp
qed

lemma category_of_first_marker:
  assumes "\<And>i. i < length a \<Longrightarrow> marker_here (drop i (a @ ''//'' @ ws1 @ kw @ ws2 @ nm @ z)) = None"
    and "list_all js_space ws1" and "list_all js_space ws2"
    and "toLowerCase kw = ''category:''" and "toLowerCase nm = category_name c"
  shows "category_of (a @ ''//'' @ ws1 @ kw @ ws2 @ nm @ z) = c"
  using find_marker_first [of a "''//'' @ ws1 @ kw @ ws2 @ nm @ z", OF assms(1)]
    find_marker_here [OF marker_here_matches [OF assms(2-5)]]
  by (simp add: category_of_def)

lemma ci_prefix_take: "ci_prefix pat s \<Longrightarrow> toLowerCase (take (length pat) s) = pat"
  by (simp add: ci_prefix_def)

lemma marker_here_Some:
  assumes "marker_here s = Some c"
  shows "\<exists>ws1 kw ws2 nm z. s = ''//'' @ ws1 @ kw @ ws2 @ nm @ z
      \<and> list_all js_space ws1 \<and> list_all js_space ws2
      \<and> toLowerCase kw = ''category:'' \<and> toLowerCase nm = category_name c"
proof -
  define r1 where "r1 = dropWhile js_space (drop 2 s)"
  define r2 where "r2 = dropWhile js_space (drop 9 r1)"
  from assms have t: "take 2 s = ''//''" and k: "ci_prefix ''category:'' r1"
    by (auto simp: marker_here_def r1_def split: if_splits)
  from assms have n: "ci_prefix (category_name c) r2"
    by (cases c) (auto simp: marker_here_def r1_def r2_def category_name_def split: if_splits)
  have "s = take 2 s @ drop 2 s" by simp
  also have "drop 2 s = takeWhile js_space (drop 2 s) @ r1" by (simp add: r1_def)
  also have "r1 = take 9 r1 @ drop 9 r1" by simp
  also have "drop 9 r1 = takeWhile js_space (drop 9 r1) @ r2" by (simp add: r2_def)
  also have "r2 = take (length (category_name c)) r2 @ drop (length (category_name c)) r2" by simp
  finally have "s = ''//'' @ takeWhile js_space (drop 2 s) @ take 9 r1
      @ takeWhile js_space (drop 9 r1) @ take (length (category_name c)) r2
      @ drop (length (category_name c)) r2"
    by (simp only: t append_assoc)
  moreover have "list_all js_space (takeWhile js_space (drop 2 s))"
    "list_all js_space (takeWhile js_space (drop 9 r1))"
    by (simp_all add: list_all_iff) (auto dest: set_takeWhileD)
  moreover have "toLowerCase (take 9 r1) = ''category:''"
  proof -
    have "length ''category:'' = 9" by simp
    with ci_prefix_take [OF k] show ?thesis by (simp only:)
  qed
  moreover from n have "toLowerCase (take (length (category_name c)) r2) = category_name c"
    by (rule ci_prefix_take)
  ultimately show ?thesis by blast
qed

lemma marker_here_slashes: "take 2 s \<noteq> ''//'' \<Longrightarrow> marker_here s = None"
  by (simp only: marker_here_def simp_thms if_False)

section \<open>Properties of the snippet loop\<close>

lemma exec_induct [case_names step]:
  assumes "\<And>input. (\<And>g1 body rest. exec input = Some (g1, body, rest) \<Longrightarrow> P rest) \<Longrightarrow> P input"
  shows "P input"
proof (induction input rule: length_induct)
  case (1 xs)
  show ?case
  proof (rule assms)
    fix g1 body rest
    assume "exec xs = Some (g1, body, rest)"
    then have "length rest < length xs" by (rule exec_shorter)
    with 1 show "P rest" by blast
  qed
qed

lemma extractSnippets_None: "exec input = None \<Longrightarrow> extractSnippets input st = ([], st)"
  by (simp add: extractSnippets.simps)

lemma extractSnippets_Some:
  "exec input = Some (g1, body, rest) \<Longrightarrow>
   extractSnippets input st =
     (fst (push_snippet g1 body st) # fst (extractSnippets rest (snd (push_snippet g1 body st))),
      snd (extractSnippets rest (snd (push_snippet g1 body st))))"
  by (subst extractSnippets.simps) (simp add: split_def)

lemma fences_None: "exec input = None \<Longrightarrow> fences input = []"
  by (simp add: fences.simps)

lemma fences_Some:
  "exec input = Some (g1, body, rest) \<Longrightarrow>
   fences input = (language_of g1, body, category_of body) # fences rest"
  by (subst fences.simps) simp

lemma push_snippet_view:
  "snippet_view (fst (push_snippet g1 body st)) = (language_of g1, body, category_of body)"
  by (simp add: push_snippet_def snippet_view_def Let_def split_def)

lemma extractSnippets_view:
  "map snippet_view (fst (extractSnippets input st)) = fences input"
proof (induction input arbitrary: st rule: exec_induct)
  case (step input)
  show ?case
  proof (cases "exec input")
    case None
    then show ?thesis by (simp add: extractSnippets_None fences_None)
  next
    case (Some m)
    obtain g1 body rest where e: "exec input = Some (g1, body, rest)"
      using Some by (cases m) auto
    show ?thesis
      by (simp add: extractSnippets_Some [OF e] fences_Some [OF e] push_snippet_view step [OF e])
  qed
qed

lemma push_snippet_preview:
  "previewContent (snd (push_snippet g1 body st)) =
     (if category_of body = Frontend then body else previewContent st)"
  by (simp add: push_snippet_def Let_def split_def randomUUID_def Date_now_def)

lemma extractSnippets_preview:
  "previewContent (snd (extractSnippets input st)) =
     (if frontend_codes (fences input) = [] then previewContent st
      else last (frontend_codes (fences input)))"
proof (induction input arbitrary: st rule: exec_induct)
  case (step input)
  show ?case
  proof (cases "exec input")
    case None
    then show ?thesis by (simp add: extractSnippets_None fences_None frontend_codes_def)
  next
    case (Some m)
    obtain g1 body rest where e: "exec input = Some (g1, body, rest)"
      using Some by (cases m) auto
    show ?thesis
      by (simp add: extractSnippets_Some [OF e] fences_Some [OF e] push_snippet_preview step [OF e]
          frontend_codes_def)
  qed
qed

lemma push_snippet_frame:
  "projects (snd (push_snippet g1 body st)) = projects st"
  "currentProject (snd (push_snippet g1 body st)) = currentProject st"
  "localStorage (snd (push_snippet g1 body st)) = localStorage st"
  "console_errors (snd (push_snippet g1 body st)) = console_errors st"
  "isSynthesizing (snd (push_snippet g1 body st)) = isSynthesizing st"
  "intelligenceState (snd (push_snippet g1 body st)) = intelligenceState st"
  "intelligenceMessage (snd (push_snippet g1 body st)) = intelligenceMessage st"
  "activeAgents (snd (push_snippet g1 body st)) = activeAgents st"
  "selectedSnippetId (snd (push_snippet g1 body st)) = selectedSnippetId st"
  "clock (snd (push_snippet g1 body st)) = clock st"
  "uuid (snd (push_snippet g1 body st)) = uuid st"
  by (simp_all add: push_snippet_def Let_def split_def randomUUID_def Date_now_def)

lemma extractSnippets_frame:
  "projects (snd (extractSnippets input st)) = projects st \<and>
   currentProject (snd (extractSnippets input st)) = currentProject st \<and>
   localStorage (snd (extractSnippets input st)) = localStorage st \<and>
   console_errors (snd (extractSnippets input st)) = console_errors st \<and>
   isSynthesizing (snd (extractSnippets input st)) = isSynthesizing st \<and>
   intelligenceState (snd (extractSnippets input st)) = intelligenceState st \<and>
   intelligenceMessage (snd (extractSnippets input st)) = intelligenceMessage st \<and>
   activeAgents (snd (extractSnippets input st)) = activeAgents st \<and>
   selectedSnippetId (snd (extractSnippets input st)) = selectedSnippetId st \<and>
   clock (snd (extractSnippets input st)) = clock st \<and>
   uuid (snd (extractSnippets input st)) = uuid st"
proof (induction input arbitrary: st rule: exec_induct)
  case (step input)
  show ?case
  proof (cases "exec input")
    case None
    then show ?thesis by (simp add: extractSnippets_None)
  next
    case (Some m)
    obtain g1 body rest where e: "exec input = Some (g1, body, rest)"
      using Some by (cases m) auto
    show ?thesis
      by (simp add: extractSnippets_Some [OF e] step [OF e] push_snippet_frame)
  qed
qed

section \<open>Properties of \<^verbatim>\<open>addMessage\<close>\<close>

lemma addMessage_fst:
  "fst (addMessage cap r text (Some p) st) = Some (ingested p r text st)"
  by (simp add: addMessage_def ingested_def Date_now_def split_def Let_def)

lemma addMessage_None:
  "currentProject cap = None \<Longrightarrow> addMessage cap r text None st = (None, st)"
  by (simp add: addMessage_def)

lemma saveProjects_fields:
  "localStorage (saveProjects list st) = Some (JSON_stringify (projects_js VDate list))"
  "projects (saveProjects list st) = list"
  "currentProject (saveProjects list st) = currentProject st"
  "previewContent (saveProjects list st) = previewContent st"
  "selectedSnippetId (saveProjects list st) = selectedSnippetId st"
  "isSynthesizing (saveProjects list st) = isSynthesizing st"
  "intelligenceState (saveProjects list st) = intelligenceState st"
  "intelligenceMessage (saveProjects list st) = intelligenceMessage st"
  "activeAgents (saveProjects list st) = activeAgents st"
  "console_errors (saveProjects list st) = console_errors st"
  "clock (saveProjects list st) = clock st"
  "uuid (saveProjects list st) = uuid st"
  "ticks (saveProjects list st) = ticks st"
  "draws (saveProjects list st) = draws st"
  by (simp_all add: saveProjects_def)

lemma select_last_fields:
  "localStorage (select_last new st) = localStorage st"
  "projects (select_last new st) = projects st"
  "currentProject (select_last new st) = currentProject st"
  "previewContent (select_last new st) = previewContent st"
  "isSynthesizing (select_last new st) = isSynthesizing st"
  "intelligenceState (select_last new st) = intelligenceState st"
  "intelligenceMessage (select_last new st) = intelligenceMessage st"
  "activeAgents (select_last new st) = activeAgents st"
  "console_errors (select_last new st) = console_errors st"
  "clock (select_last new st) = clock st"
  "uuid (select_last new st) = uuid st"
  "ticks (select_last new st) = ticks st"
  "draws (select_last new st) = draws st"
  by (simp_all add: select_last_def)

lemma addMessage_snd:
  "snd (addMessage cap r text (Some p) st) =
     saveProjects (replace_project (ingested p r text st) (projects cap))
       ((select_last (fst (extractSnippets text (st\<lparr>ticks := Suc (Suc (Suc (ticks st)))\<rparr>)))
           (snd (extractSnippets text (st\<lparr>ticks := Suc (Suc (Suc (ticks st)))\<rparr>))))
        \<lparr>currentProject := Some (ingested p r text st)\<rparr>)"
  by (simp add: addMessage_def ingested_def Date_now_def split_def Let_def)

lemma addMessage_state:
  "localStorage (snd (addMessage cap r text (Some p) st)) =
     Some (JSON_stringify (projects_js VDate (replace_project (ingested p r text st) (projects cap))))"
  "projects (snd (addMessage cap r text (Some p) st)) =
     replace_project (ingested p r text st) (projects cap)"
  "currentProject (snd (addMessage cap r text (Some p) st)) = Some (ingested p r text st)"
  "previewContent (snd (addMessage cap r text (Some p) st)) =
     (if frontend_codes (fences text) = [] then previewContent st
      else last (frontend_codes (fences text)))"
  "isSynthesizing (snd (addMessage cap r text (Some p) st)) = isSynthesizing st"
  "intelligenceState (snd (addMessage cap r text (Some p) st)) = intelligenceState st"
  "intelligenceMessage (snd (addMessage cap r text (Some p) st)) = intelligenceMessage st"
  "activeAgents (snd (addMessage cap r text (Some p) st)) = activeAgents st"
  "console_errors (snd (addMessage cap r text (Some p) st)) = console_errors st"
  "clock (snd (addMessage cap r text (Some p) st)) = clock st"
  "uuid (snd (addMessage cap r text (Some p) st)) = uuid st"
  by (simp_all add: addMessage_snd saveProjects_fields select_last_fields
      extractSnippets_frame extractSnippets_preview)

lemma ingested_fields:
  "messages (workspace (ingested p r text st)) =
     messages (workspace p)
       @ [new_message r text (clock st (ticks st)) (clock st (Suc (ticks st)))]"
  "map snippet_view (snippets (workspace (ingested p r text st))) =
     map snippet_view (snippets (workspace p)) @ fences text"
  "lastModified (ingested p r text st) = toISOString (clock st (Suc (Suc (ticks st))))"
  "projectId (ingested p r text st) = projectId p"
  "name (ingested p r text st) = name p"
  "createdAt (ingested p r text st) = createdAt p"
proof -
  have v: "map snippet_view (fst (extractSnippets text (st\<lparr>ticks := Suc (Suc (Suc (ticks st)))\<rparr>))) = fences text"
    by (rule extractSnippets_view)
  show "map snippet_view (snippets (workspace (ingested p r text st))) =
     map snippet_view (snippets (workspace p)) @ fences text"
    using v by (auto simp add: ingested_def with_snippets_def with_message_def)
qed (simp_all add: ingested_def with_snippets_def with_message_def)

lemma new_message_fields:
  "role (new_message r text a b) = r" "content (new_message r text a b) = text"
  by (simp_all add: new_message_def)

lemma sample_project_workspace:
  "messages (workspace sample_project) = []" "snippets (workspace sample_project) = []"
  by (simp_all add: sample_project_def new_project_def)

lemma ingested_no_match:
  assumes "exec text = None"
  shows "snippets (workspace (ingested p r text st)) = snippets (workspace p)"
proof -
  from assms have "extractSnippets text (st\<lparr>ticks := Suc (Suc (Suc (ticks st)))\<rparr>)
      = ([], st\<lparr>ticks := Suc (Suc (Suc (ticks st)))\<rparr>)"
    by (rule extractSnippets_None)
  then show ?thesis
    by (simp add: ingested_def with_snippets_def with_message_def)
qed

section \<open>Properties of \<^verbatim>\<open>createProject\<close>\<close>

lemma createProject_eq:
  "createProject cap name_opt st =
     (new_project (uuid st (draws st))
        (case name_opt of None \<Rightarrow> default_name cap
                        | Some n \<Rightarrow> if n = [] then default_name cap else n)
        (clock st (ticks st)) (clock st (Suc (ticks st))),
      (saveProjects
         (new_project (uuid st (draws st))
            (case name_opt of None \<Rightarrow> default_name cap
                            | Some n \<Rightarrow> if n = [] then default_name cap else n)
            (clock st (ticks st)) (clock st (Suc (ticks st))) # projects cap)
         (st\<lparr>draws := Suc (draws st), ticks := Suc (Suc (ticks st))\<rparr>))
      \<lparr>currentProject :=
         Some (new_project (uuid st (draws st))
            (case name_opt of None \<Rightarrow> default_name cap
                            | Some n \<Rightarrow> if n = [] then default_name cap else n)
            (clock st (ticks st)) (clock st (Suc (ticks st))))\<rparr>)"
  by (simp add: createProject_def randomUUID_def Date_now_def Let_def split_def)

lemma new_project_fields:
  "projectId (new_project u nm a b) = u"
  "name (new_project u nm a b) = nm"
  "messages (workspace (new_project u nm a b)) = []"
  "snippets (workspace (new_project u nm a b)) = []"
  "createdAt (new_project u nm a b) = toISOString a"
  "lastModified (new_project u nm a b) = toISOString b"
  "status (new_project u nm a b) = Active"
  "currentPhase (new_project u nm a b) = Onboarding"
  by (simp_all add: new_project_def)

lemma string_of_nat_digit: "n < 10 \<Longrightarrow> string_of_nat n = [digit_char n]"
  by (simp add: string_of_nat.simps)

lemma createProject_draws:
  "drawn (snd (createProject cap name_opt st)) = drawn st @ [uuid st (draws st)]"
  by (simp add: createProject_eq saveProjects_fields drawn_def)

text \<open>
  \<^verbatim>\<open>addMessage\<close> draws identifiers for its snippets only: the projects of the
  list that it stores keep identifiers that were drawn before.
\<close>

lemma push_snippet_draws: "draws (snd (push_snippet g1 body st)) = Suc (draws st)"
  by (simp add: push_snippet_def randomUUID_def Date_now_def Let_def split_def)

lemma extractSnippets_draws: "draws st \<le> draws (snd (extractSnippets input st))"
proof (induction input arbitrary: st rule: exec_induct)
  case (step input)
  show ?case
  proof (cases "exec input")
    case None
    then show ?thesis by (simp add: extractSnippets_None)
  next
    case (Some m)
    obtain g1 body rest where e: "exec input = Some (g1, body, rest)"
      using Some by (cases m) auto
    have "draws (snd (push_snippet g1 body st))
        \<le> draws (snd (extractSnippets rest (snd (push_snippet g1 body st))))"
      by (rule step [OF e])
    then show ?thesis
      by (simp add: extractSnippets_Some [OF e] push_snippet_draws)
  qed
qed

lemma drawn_mono:
  assumes "uuid st' = uuid st" and "draws st \<le> draws st'"
  shows "set (drawn st) \<subseteq> set (drawn st')"
  using assms by (auto simp add: drawn_def)

lemma addMessage_keeps_drawn:
  assumes "projectId p \<in> set (drawn st)" and "projectId ` set (projects cap) \<subseteq> set (drawn st)"
  shows "projectId ` set (projects (snd (addMessage cap r text (Some p) st)))
      \<subseteq> set (drawn (snd (addMessage cap r text (Some p) st)))"
proof -
  have "draws st \<le> draws (snd (extractSnippets text (st\<lparr>ticks := Suc (Suc (Suc (ticks st)))\<rparr>)))"
    using extractSnippets_draws [of "st\<lparr>ticks := Suc (Suc (Suc (ticks st)))\<rparr>" "text"] by simp
  then have "draws st \<le> draws (snd (addMessage cap r text (Some p) st))"
    by (simp add: addMessage_snd saveProjects_fields select_last_fields)
  then have m: "set (drawn st) \<subseteq> set (drawn (snd (addMessage cap r text (Some p) st)))"
    by (intro drawn_mono) (simp_all add: addMessage_state)
  have "projectId ` set (replace_project (ingested p r text st) (projects cap))
      \<subseteq> insert (projectId p) (projectId ` set (projects cap))"
    by (auto simp add: replace_project_def Let_def ingested_fields)
  also have "\<dots> \<subseteq> set (drawn st)" using assms by simp
  also note m
  finally show ?thesis by (simp only: addMessage_state)
qed

section \<open>Properties of \<^verbatim>\<open>handleSendMessage\<close>\<close>

lemma handleSendMessage_failed:
  assumes "\<not> isSynthesizing cap"
  shows "handleSendMessage (\<lambda>h x. Inl e) cap text st =
     finally_idle
       ((snd (addMessage cap User text (Some (turn_project cap st)) (turn_start cap st)))
        \<lparr>isSynthesizing := True, intelligenceState := Thinking,
          intelligenceMessage := ''Analysing'', activeAgents := [Architect],
          console_errors :=
           console_errors (snd (addMessage cap User text (Some (turn_project cap st)) (turn_start cap st)))
           @ [e]\<rparr>)"
  using assms
  by (cases "currentProject cap")
     (simp_all add: handleSendMessage_def turn_project_def turn_start_def
        split_def Let_def addMessage_fst)

lemma handleSendMessage_replied:
  assumes "\<not> isSynthesizing cap"
  shows "handleSendMessage (\<lambda>h x. Inr t) cap text st =
     finally_idle
       (snd (addMessage cap Assistant (reply_text t)
               (Some (ingested (turn_project cap st) User text (turn_start cap st)))
               ((snd (addMessage cap User text (Some (turn_project cap st)) (turn_start cap st)))
                \<lparr>isSynthesizing := True, intelligenceState := Building,
                  activeAgents := [Reviewer], intelligenceMessage := ''Reviewing''\<rparr>)))"
  using assms
  by (cases "currentProject cap")
     (simp_all add: handleSendMessage_def turn_project_def turn_start_def
        split_def Let_def addMessage_fst)

lemma turn_start_console: "console_errors (turn_start cap st) = console_errors st"
  by (cases "currentProject cap")
     (simp_all add: turn_start_def createProject_eq saveProjects_fields)

lemma finally_idle_fields:
  "isSynthesizing (finally_idle st) = False"
  "intelligenceState (finally_idle st) = Idle"
  "activeAgents (finally_idle st) = []"
  "projects (finally_idle st) = projects st"
  "currentProject (finally_idle st) = currentProject st"
  "localStorage (finally_idle st) = localStorage st"
  "previewContent (finally_idle st) = previewContent st"
  "console_errors (finally_idle st) = console_errors st"
  by (simp_all add: finally_idle_def)

text \<open>The callers of \<^verbatim>\<open>handleSendMessage\<close> and the texts they send.\<close>

lemma suggestions_single_line: "list_all (\<lambda>p. CHR 0x0A \<notin> set p) suggestions"
  by (simp add: suggestions_def)

lemma trim_single_line: "CHR 0x0A \<notin> set v \<Longrightarrow> CHR 0x0A \<notin> set (trim v)"
  by (auto simp: trim_def dest!: set_dropWhileD)

lemma turn_start_select:
  "currentProject cap = None \<Longrightarrow>
   turn_start cap (snd (createProject cap None st))
     = snd (createProject cap None (snd (createProject cap None st)))"
  by (simp add: turn_start_def)

lemma onSelect_turn:
  "currentProject cap = None \<Longrightarrow>
   onSelect chat cap p st = handleSendMessage chat cap p (snd (createProject cap None st))"
  by (simp add: onSelect_def)

lemma handleSubmit_turn:
  "trim v \<noteq> [] \<Longrightarrow> \<not> isSynthesizing cap \<Longrightarrow> \<not> showOnboarding cap \<Longrightarrow>
   handleSubmit chat cap v st = handleSendMessage chat cap (trim v) st"
  by (simp add: handleSubmit_def)

section \<open>Evaluating the formatting functions\<close>

lemma string_of_nat_step:
  "\<not> n < 10 \<Longrightarrow> string_of_nat n = string_of_nat (n div 10) @ [digit_char (n mod 10)]"
  by (subst string_of_nat.simps) simp

lemma replicate_numeral: "replicate (numeral k) x = x # replicate (pred_numeral k) x"
  by (simp add: numeral_eq_Suc)

lemmas civil_defs = civil_from_days_def civil_from_yoe_def civil_from_doy_def
  civil_from_month_def year_of_era_def day_of_year_def month_index_def civil_month_def
  civil_day_def civil_year_def

lemmas string_defs = pad0_def string_of_nat_digit string_of_nat_step digit_char_def
  replicate_numeral

lemmas iso_defs = toISOString_def iso_date_def iso_time_def civil_defs string_defs

lemma toISOString_epoch: "toISOString 0 = ''1970-01-01T00:00:00.000Z''"
  by (simp add: iso_defs)

lemma toISOString_leap_day: "toISOString 1709251199999 = ''2024-02-29T23:59:59.999Z''"
  by (simp add: iso_defs)

lemma toISOString_samples:
  "toISOString 1699999990000 = ''2023-11-14T22:13:10.000Z''"
  "toISOString 1700000000001 = ''2023-11-14T22:13:20.001Z''"
  "toISOString 1700000000002 = ''2023-11-14T22:13:20.002Z''"
  by (simp_all add: iso_defs)

lemmas js_defs = projects_js_def project_js_def workspace_js_def message_js_def snippet_js_def
  sync_js_def optional_def nullable_def role_name_def status_name_def phase_name_def
  cloud_name_def category_name_def

lemma chat_project_eq:
  "chat_project = with_message sample_project
     (new_message User ''hi'' 1700000000000 1700000000001) 1700000000002"
proof -
  have "exec ''hi'' = None" by code_simp
  then show ?thesis
    by (simp add: chat_project_def ingested_def extractSnippets_None with_snippets_def
        sample_state_def)
qed

lemma chat_project_js:
  "projects_js time [chat_project] =
   VArr
     [VObj
       [(''projectId'', VStr ''uuid-0''), (''name'', VStr ''Mission 1''),
        (''description'', VStr ''Autonomous engineering session.''),
        (''createdAt'', VStr ''2023-11-14T22:13:10.000Z''),
        (''lastModified'', VStr ''2023-11-14T22:13:20.002Z''),
        (''status'', VStr ''active''),
        (''currentPhase'', VStr ''onboarding''),
        (''aiPersona'', VStr ''CodexPro-Alpha''),
        (''workspace'',
         VObj
          [(''messages'',
            VArr
             [VObj
               [(''id'', VStr ''1700000000000''), (''role'', VStr ''user''),
                (''content'', VStr ''hi''),
                (''timestamp'', time 1700000000001)]]),
           (''snippets'', VArr []), (''simulation'', VNull),
           (''decisions'', VArr []), (''agentAssignments'', VObj []),
           (''memoryContext'', VObj [])]),
        (''snapshots'', VArr []),
        (''sync'',
         VObj
          [(''lastSyncedAt'', VNull), (''checksum'', VNull),
           (''cloudStatus'', VStr ''unsynced'')])]]"
  by (simp add: chat_project_eq js_defs with_message_def new_message_def sample_project_def
      new_project_def toISOString_samples string_of_nat_digit string_of_nat_step digit_char_def)

lemma chat_project_stored:
  \<open>JSON_stringify (projects_js VDate [chat_project]) =
   ''[{"projectId":"uuid-0","name":"Mission 1","description":"Autonomous engineering session.","createdAt":"2023-11-14T22:13:10.000Z","lastModified":"2023-11-14T22:13:20.002Z","status":"active","currentPhase":"onboarding","aiPersona":"CodexPro-Alpha","workspace":{"messages":[{"id":"1700000000000","role":"user","content":"hi","timestamp":"2023-11-14T22:13:20.001Z"}],"snippets":[],"simulation":null,"decisions":[],"agentAssignments":{},"memoryContext":{}},"snapshots":[],"sync":{"lastSyncedAt":null,"checksum":null,"cloudStatus":"unsynced"}}]''\<close>
  by (simp add: chat_project_js toISOString_samples quote_def quote_char_def code_unit_def)

lemma chat_project_parsed:
  \<open>JSON_parse
   ''[{"projectId":"uuid-0","name":"Mission 1","description":"Autonomous engineering session.","createdAt":"2023-11-14T22:13:10.000Z","lastModified":"2023-11-14T22:13:20.002Z","status":"active","currentPhase":"onboarding","aiPersona":"CodexPro-Alpha","workspace":{"messages":[{"id":"1700000000000","role":"user","content":"hi","timestamp":"2023-11-14T22:13:20.001Z"}],"snippets":[],"simulation":null,"decisions":[],"agentAssignments":{},"memoryContext":{}},"snapshots":[],"sync":{"lastSyncedAt":null,"checksum":null,"cloudStatus":"unsynced"}}]''
   = Inr (VArr
     [VObj
       [(''projectId'', VStr ''uuid-0''), (''name'', VStr ''Mission 1''),
        (''description'', VStr ''Autonomous engineering session.''),
        (''createdAt'', VStr ''2023-11-14T22:13:10.000Z''),
        (''lastModified'', VStr ''2023-11-14T22:13:20.002Z''),
        (''status'', VStr ''active''),
        (''currentPhase'', VStr ''onboarding''),
        (''aiPersona'', VStr ''CodexPro-Alpha''),
        (''workspace'',
         VObj
          [(''messages'',
            VArr
             [VObj
               [(''id'', VStr ''1700000000000''), (''role'', VStr ''user''),
                (''content'', VStr ''hi''),
                (''timestamp'', VStr ''2023-11-14T22:13:20.001Z'')]]),
           (''snippets'', VArr []), (''simulation'', VNull),
           (''decisions'', VArr []), (''agentAssignments'', VObj []),
           (''memoryContext'', VObj [])]),
        (''snapshots'', VArr []),
        (''sync'',
         VObj
          [(''lastSyncedAt'', VNull), (''checksum'', VNull),
           (''cloudStatus'', VStr ''unsynced'')])]])\<close>
  by code_simp

section \<open>Properties of \<^verbatim>\<open>JSON.parse\<close> after \<^verbatim>\<open>JSON.stringify\<close>\<close>

text \<open>The text of a string is read back as the string.\<close>

lemma code_unit_range: "0 \<le> code_unit c" "code_unit c < 256"
  unfolding code_unit_def by (simp_all add: of_char_def)

lemma char_of_code_unit: "char_of_code (code_unit c) = c"
proof -
  have "char_of (of_char c :: int) = c" by simp
  moreover have "char_of (n :: int) = char_of_code n" for n
    by (simp add: char_of_def char_of_code_def bit_iff_odd_drop_bit drop_bit_eq_div)
  ultimately show ?thesis by (simp add: code_unit_def)
qed

lemma hex_value_hex_char:
  assumes "0 \<le> d" "d < 16"
  shows "hex_value (hex_char d) = Some d"
proof -
  from assms have "d = 0 \<or> d = 1 \<or> d = 2 \<or> d = 3 \<or> d = 4 \<or> d = 5 \<or> d = 6 \<or> d = 7
     \<or> d = 8 \<or> d = 9 \<or> d = 10 \<or> d = 11 \<or> d = 12 \<or> d = 13 \<or> d = 14 \<or> d = 15" by presburger
  then show ?thesis
    by (elim disjE) (simp_all add: hex_value_def hex_char_def code_unit_def)
qed

lemma hex4_low:
  assumes "0 \<le> n" "n < 256"
  shows "hex4 [CHR ''0'', CHR ''0'', hex_char (n div 16), hex_char (n mod 16)] = Some n"
proof -
  have z: "hex_value (CHR ''0'') = Some 0" by (simp add: hex_value_def code_unit_def)
  have a: "hex_value (hex_char (n div 16)) = Some (n div 16)"
    using assms by (intro hex_value_hex_char) auto
  have b: "hex_value (hex_char (n mod 16)) = Some (n mod 16)"
    by (intro hex_value_hex_char) auto
  show ?thesis by (simp add: hex4_def z a b)
qed

lemma lex_string_quote_char:
  "lex_string (quote_char c @ t) = cons_char c (lex_string t)"
proof -
  consider "c = CHR 0x22" | "c = CHR 0x5C" | "c = CHR 0x08" | "c = CHR 0x09" | "c = CHR 0x0A"
    | "c = CHR 0x0C" | "c = CHR 0x0D"
    | "c \<notin> {CHR 0x22, CHR 0x5C, CHR 0x08, CHR 0x09, CHR 0x0A, CHR 0x0C, CHR 0x0D}" "code_unit c < 32"
    | "c \<notin> {CHR 0x22, CHR 0x5C, CHR 0x08, CHR 0x09, CHR 0x0A, CHR 0x0C, CHR 0x0D}" "\<not> code_unit c < 32"
    by blast
  then show ?thesis
  proof cases
    case 8
    have "hex4 [CHR ''0'', CHR ''0'', hex_char (code_unit c div 16), hex_char (code_unit c mod 16)]
        = Some (code_unit c)"
      by (rule hex4_low) (rule code_unit_range)+
    with 8 show ?thesis
      by (simp add: quote_char_def char_of_code_unit code_unit_range)
  next
    case 9
    then show ?thesis by (simp add: quote_char_def)
  qed (simp_all add: quote_char_def escape_def)
qed

lemma lex_string_quoted:
  "lex_string (concat (map quote_char s) @ CHR 0x22 # rest) = Inr (s, rest)"
  by (induction s) (simp_all add: lex_string_quote_char cons_char_def del: lex_string.simps(2), simp)

lemma lex_quote: "lex (quote s @ rest) = cons_token (TString s) (lex rest)"
  by (simp add: quote_def json_space_def punctuation_def lex_string_quoted)

text \<open>The text of a plain value is read as the tokens of the value.\<close>

lemma cons_tokens_simps:
  "cons_tokens [] r = r"
  "cons_tokens (t # ts) r = cons_token t (cons_tokens ts r)"
  "cons_tokens (ts @ us) r = cons_tokens ts (cons_tokens us r)"
  "cons_token t r = cons_tokens [t] r"
  by (auto simp: cons_tokens_def cons_token_def split: sum.splits)

lemma lex_punct:
  "lex (CHR ''['' # s) = cons_token TLBrack (lex s)"
  "lex (CHR '']'' # s) = cons_token TRBrack (lex s)"
  "lex (CHR ''{'' # s) = cons_token TLBrace (lex s)"
  "lex (CHR ''}'' # s) = cons_token TRBrace (lex s)"
  "lex (CHR '':'' # s) = cons_token TColon (lex s)"
  "lex (CHR '','' # s) = cons_token TComma (lex s)"
  by (simp_all add: json_space_def punctuation_def)

lemma lex_names:
  "lex (''null'' @ s) = cons_token TNull (lex s)"
  "lex (''true'' @ s) = cons_token TTrue (lex s)"
  "lex (''false'' @ s) = cons_token TFalse (lex s)"
  by (simp_all add: json_space_def punctuation_def is_digit_def code_unit_def literal_name_def)

lemma lex_joined:
  assumes "\<And>x rest. x \<in> set xs \<Longrightarrow> lex (f x @ rest) = cons_tokens (g x) (lex rest)"
  shows "lex (join_comma (map f xs) @ rest) = cons_tokens (separated (map g xs)) (lex rest)"
  using assms
proof (induction xs rule: induct_list012)
  case 1
  then show ?case by (simp add: cons_tokens_simps(1))
next
  case (2 x)
  then show ?case by simp
next
  case (3 x y zs)
  have "lex (join_comma (map f (x # y # zs)) @ rest)
      = lex (f x @ CHR '','' # join_comma (map f (y # zs)) @ rest)" by simp
  also have "\<dots> = cons_tokens (g x) (lex (CHR '','' # join_comma (map f (y # zs)) @ rest))"
    by (rule "3.prems") simp
  also have "lex (CHR '','' # join_comma (map f (y # zs)) @ rest)
      = cons_token TComma (lex (join_comma (map f (y # zs)) @ rest))" by (rule lex_punct)
  also have "lex (join_comma (map f (y # zs)) @ rest)
      = cons_tokens (separated (map g (y # zs))) (lex rest)"
    by (rule "3.IH"(2)) (simp add: "3.prems")
  finally show ?case by (simp add: cons_tokens_simps(2,3))
qed

lemma lex_stringify:
  "plain v \<Longrightarrow> lex (JSON_stringify v @ rest) = cons_tokens (tokens v) (lex rest)"
proof (induction v arbitrary: rest)
  case VNull
  show ?case by (simp only: JSON_stringify.simps tokens.simps lex_names cons_tokens_simps(1,2))
next
  case (VBool b)
  show ?case
    by (cases b) (simp_all only: JSON_stringify.simps tokens.simps lex_names cons_tokens_simps(1,2) if_True if_False)
next
  case (VNum m e)
  then show ?case by simp
next
  case (VStr s)
  show ?case by (simp only: JSON_stringify.simps tokens.simps lex_quote cons_tokens_simps(1,2))
next
  case (VDate t)
  show ?case by (simp only: JSON_stringify.simps tokens.simps lex_quote cons_tokens_simps(1,2))
next
  case (VArr xs)
  have "lex (join_comma (map JSON_stringify xs) @ r) = cons_tokens (separated (map tokens xs)) (lex r)" for r
    by (rule lex_joined) (use VArr in auto)
  from this [of "CHR '']'' # rest"] show ?case
    by (simp add: lex_punct cons_tokens_simps(1,2,3) del: lex.simps)
next
  case (VObj kvs)
  have "lex (join_comma (map (\<lambda>(k, v). quote k @ '':'' @ JSON_stringify v) kvs) @ r)
      = cons_tokens (separated (map (\<lambda>(k, v). TString k # TColon # tokens v) kvs)) (lex r)" for r
  proof (rule lex_joined)
    fix x r'
    assume x: "x \<in> set kvs"
    obtain k v where kv: "x = (k, v)" by (cases x)
    with x VObj.prems have "plain v" by auto
    with VObj.IH x kv have "lex (JSON_stringify v @ r') = cons_tokens (tokens v) (lex r')"
      by fastforce
    then show "lex ((case x of (k, v) \<Rightarrow> quote k @ '':'' @ JSON_stringify v) @ r')
        = cons_tokens (case x of (k, v) \<Rightarrow> TString k # TColon # tokens v) (lex r')"
      by (simp add: kv lex_quote lex_punct cons_tokens_simps(2) del: lex.simps)
  qed
  from this [of "CHR ''}'' # rest"] show ?case
    by (simp add: lex_punct cons_tokens_simps(1,2,3) del: lex.simps)
qed

text \<open>
  The tokens of a plain value are parsed to the value with its dates as strings:
  every property is new and is enumerated last when the parser creates it.
\<close>

lemma separated_Cons:
  "separated (x # xs) = x @ concat (map (\<lambda>y. TComma # y) xs)"
  by (induction xs arbitrary: x rule: induct_list012) simp_all

lemma insert_property_last:
  "\<forall>k' \<in> fst ` set kvs. \<not> key_before k k' \<Longrightarrow> insert_property k v kvs = kvs @ [(k, v)]"
  by (induction kvs) auto

lemma put_property_last:
  "k \<notin> fst ` set kvs \<Longrightarrow> \<forall>k' \<in> fst ` set kvs. \<not> key_before k k'
    \<Longrightarrow> put_property k v kvs = kvs @ [(k, v)]"
  by (simp add: put_property_def insert_property_last)

lemma parse_tokens_step:
  "step st t = Some st' \<Longrightarrow> parse_tokens st (t # ts) = parse_tokens st' ts"
  by simp

lemma tokens_first: "\<exists>t ts. tokens v = t # ts \<and> t \<noteq> TRBrack \<and> value_token fs t \<noteq> None"
  by (cases v) (auto simp: value_token_def)

lemma parse_elements:
  assumes "\<And>x fs ts. x \<in> set xs \<Longrightarrow>
    parse_tokens (PValue fs) (tokens x @ ts) = parse_tokens (PAfter (serialized x) fs) ts"
  shows "parse_tokens (PAfter y (InArr acc # fs)) (concat (map (\<lambda>x. TComma # tokens x) xs) @ TRBrack # ts)
       = parse_tokens (PAfter (VArr (acc @ y # map serialized xs)) fs) ts"
  using assms
proof (induction xs arbitrary: acc y)
  case Nil
  show ?case by (simp add: step_def after_token_def)
next
  case (Cons x xs)
  have "parse_tokens (PAfter y (InArr acc # fs))
          (concat (map (\<lambda>x. TComma # tokens x) (x # xs)) @ TRBrack # ts)
      = parse_tokens (PValue (InArr (acc @ [y]) # fs))
          (tokens x @ concat (map (\<lambda>x. TComma # tokens x) xs) @ TRBrack # ts)"
    by (simp add: step_def after_token_def)
  also have "\<dots> = parse_tokens (PAfter (serialized x) (InArr (acc @ [y]) # fs))
          (concat (map (\<lambda>x. TComma # tokens x) xs) @ TRBrack # ts)"
    by (rule Cons.prems) simp
  also have "\<dots> = parse_tokens (PAfter (VArr ((acc @ [y]) @ serialized x # map serialized xs)) fs) ts"
    by (rule Cons.IH) (simp add: Cons.prems)
  finally show ?case by simp
qed

lemma parse_members:
  assumes "\<And>k v fs ts. (k, v) \<in> set kvs \<Longrightarrow>
    parse_tokens (PValue fs) (tokens v @ ts) = parse_tokens (PAfter (serialized v) fs) ts"
    and "distinct (map fst acc @ k # map fst kvs)"
    and "sorted_wrt (\<lambda>k k'. \<not> key_before k' k) (map fst acc @ k # map fst kvs)"
  shows "parse_tokens (PAfter y (InObj acc k # fs))
           (concat (map (\<lambda>(k, v). TComma # TString k # TColon # tokens v) kvs) @ TRBrace # ts)
       = parse_tokens (PAfter (VObj (acc @ (k, y) # map (\<lambda>(k, v). (k, serialized v)) kvs)) fs) ts"
  using assms
proof (induction kvs arbitrary: acc k y)
  case Nil
  then have "put_property k y acc = acc @ [(k, y)]"
    by (intro put_property_last) (auto simp: sorted_wrt_append)
  then show ?case by (simp add: step_def after_token_def)
next
  case (Cons kv kvs)
  obtain k' v' where kv: "kv = (k', v')" by (cases kv)
  from Cons.prems(2,3) have put: "put_property k y acc = acc @ [(k, y)]"
    by (intro put_property_last) (auto simp: sorted_wrt_append)
  have "parse_tokens (PAfter y (InObj acc k # fs))
          (concat (map (\<lambda>(k, v). TComma # TString k # TColon # tokens v) (kv # kvs)) @ TRBrace # ts)
      = parse_tokens (PValue (InObj (acc @ [(k, y)]) k' # fs))
          (tokens v' @ concat (map (\<lambda>(k, v). TComma # TString k # TColon # tokens v) kvs) @ TRBrace # ts)"
    by (simp add: kv step_def after_token_def put)
  also have "\<dots> = parse_tokens (PAfter (serialized v') (InObj (acc @ [(k, y)]) k' # fs))
          (concat (map (\<lambda>(k, v). TComma # TString k # TColon # tokens v) kvs) @ TRBrace # ts)"
    by (rule Cons.prems(1) [of k']) (simp add: kv)
  also have "\<dots> = parse_tokens (PAfter (VObj ((acc @ [(k, y)]) @ (k', serialized v')
          # map (\<lambda>(k, v). (k, serialized v)) kvs)) fs) ts"
  proof (rule Cons.IH)
    show "distinct (map fst (acc @ [(k, y)]) @ k' # map fst kvs)"
      using Cons.prems(2) by (simp add: kv)
    show "sorted_wrt (\<lambda>k k'. \<not> key_before k' k) (map fst (acc @ [(k, y)]) @ k' # map fst kvs)"
      using Cons.prems(3) by (simp add: kv)
  next
    fix k'' z fs ts
    assume "(k'', z) \<in> set kvs"
    then have "(k'', z) \<in> set (kv # kvs)" by simp
    then show "parse_tokens (PValue fs) (tokens z @ ts)
        = parse_tokens (PAfter (serialized z) fs) ts" by (rule Cons.prems(1))
  qed
  finally show ?case by (simp add: kv)
qed

lemma parse_tokens_value:
  "plain v \<Longrightarrow> parse_tokens (PValue fs) (tokens v @ ts) = parse_tokens (PAfter (serialized v) fs) ts"
proof (induction v arbitrary: fs ts)
  case (VArr xs)
  show ?case
  proof (cases xs)
    case Nil
    then show ?thesis by (simp add: step_def value_token_def)
  next
    case (Cons x xs')
    obtain t us where t: "tokens x = t # us" "t \<noteq> TRBrack"
      using tokens_first by blast
    have elt: "parse_tokens (PValue fs) (tokens z @ ts)
        = parse_tokens (PAfter (serialized z) fs) ts" if "z \<in> set xs" for z fs ts
      using VArr that by auto
    have "step (PArrStart fs) t = step (PValue (InArr [] # fs)) t"
      using t(2) by (cases t) (simp_all add: step_def)
    then have "parse_tokens (PArrStart fs) (tokens x @ r) = parse_tokens (PValue (InArr [] # fs)) (tokens x @ r)" for r
      by (simp add: t(1))
    then have "parse_tokens (PValue fs) (tokens (VArr xs) @ ts)
        = parse_tokens (PValue (InArr [] # fs))
            (tokens x @ concat (map (\<lambda>x. TComma # tokens x) xs') @ TRBrack # ts)"
      by (simp add: Cons separated_Cons step_def value_token_def comp_def del: parse_tokens.simps(2))
        (simp add: step_def value_token_def)
    also have "\<dots> = parse_tokens (PAfter (serialized x) (InArr [] # fs))
            (concat (map (\<lambda>x. TComma # tokens x) xs') @ TRBrack # ts)"
      by (rule elt) (simp add: Cons)
    also have "\<dots> = parse_tokens (PAfter (VArr ([] @ serialized x # map serialized xs')) fs) ts"
      by (rule parse_elements) (simp add: elt Cons)
    finally show ?thesis by (simp add: Cons)
  qed
next
  case (VObj kvs)
  show ?case
  proof (cases kvs)
    case Nil
    then show ?thesis by (simp add: step_def value_token_def)
  next
    case (Cons kv kvs')
    obtain k v where kv: "kv = (k, v)" by (cases kv)
    have elt: "parse_tokens (PValue fs) (tokens z @ ts)
        = parse_tokens (PAfter (serialized z) fs) ts" if "(k', z) \<in> set kvs" for k' z fs ts
    proof -
      from that VObj.prems have "plain z" by auto
      with VObj.IH that show ?thesis by fastforce
    qed
    have "parse_tokens (PValue fs) (tokens (VObj kvs) @ ts)
        = parse_tokens (PValue (InObj [] k # fs))
            (tokens v @ concat (map (\<lambda>(k, v). TComma # TString k # TColon # tokens v) kvs') @ TRBrace # ts)"
      by (simp add: Cons kv separated_Cons step_def value_token_def comp_def case_prod_unfold)
    also have "\<dots> = parse_tokens (PAfter (serialized v) (InObj [] k # fs))
            (concat (map (\<lambda>(k, v). TComma # TString k # TColon # tokens v) kvs') @ TRBrace # ts)"
      by (rule elt [of k]) (simp add: Cons kv)
    also have "\<dots> = parse_tokens (PAfter (VObj ([] @ (k, serialized v)
            # map (\<lambda>(k, v). (k, serialized v)) kvs')) fs) ts"
    proof (rule parse_members)
      show "distinct (map fst [] @ k # map fst kvs')"
        using VObj.prems by (simp add: Cons kv)
      show "sorted_wrt (\<lambda>k k'. \<not> key_before k' k) (map fst [] @ k # map fst kvs')"
        using VObj.prems by (simp add: Cons kv)
    next
      fix k' z fs ts
      assume "(k', z) \<in> set kvs'"
      then have "(k', z) \<in> set kvs" by (simp add: Cons)
      then show "parse_tokens (PValue fs) (tokens z @ ts)
          = parse_tokens (PAfter (serialized z) fs) ts" by (rule elt)
    qed
    finally show ?thesis by (simp add: Cons kv)
  qed
qed (simp_all add: step_def value_token_def)

lemma parse_stringify:
  assumes "plain v"
  shows "JSON_parse (JSON_stringify v) = Inr (serialized v)"
proof -
  from lex_stringify [OF assms, of "[]"] have "lex (JSON_stringify v) = Inr (tokens v)"
    by (simp add: cons_tokens_def)
  moreover from parse_tokens_value [OF assms, of "[]" "[]"]
  have "parse_tokens (PValue []) (tokens v) = Inr (serialized v)" by simp
  ultimately show ?thesis by (simp add: JSON_parse_def)
qed

text \<open>A project list with a message holds a \<^verbatim>\<open>Date\<close>.\<close>

lemma map_fixed: "map f xs = xs \<Longrightarrow> x \<in> set xs \<Longrightarrow> f x = x"
  by (induction xs) auto

lemma message_js_not_serialized: "serialized (message_js VDate m) \<noteq> message_js VDate m"
  by (simp add: message_js_def)

lemma projects_js_not_serialized:
  assumes "p \<in> set ps" "messages (workspace p) \<noteq> []"
  shows "serialized (projects_js VDate ps) \<noteq> projects_js VDate ps"
proof
  assume "serialized (projects_js VDate ps) = projects_js VDate ps"
  then have "map serialized (map (project_js VDate) ps) = map (project_js VDate) ps"
    by (simp add: projects_js_def)
  with assms(1) have "serialized (project_js VDate p) = project_js VDate p"
    by (intro map_fixed [where f = serialized and xs = "map (project_js VDate) ps"]) auto
  then have "map serialized (map (message_js VDate) (messages (workspace p)))
      = map (message_js VDate) (messages (workspace p))"
    by (simp add: project_js_def workspace_js_def)
  moreover obtain m where "m \<in> set (messages (workspace p))"
    using assms(2) by (cases "messages (workspace p)") auto
  ultimately have "serialized (message_js VDate m) = message_js VDate m"
    by (intro map_fixed [where f = serialized and xs = "map (message_js VDate) (messages (workspace p))"]) auto
  then show False by (simp add: message_js_not_serialized)
qed

lemma array_index_letter: "\<not> is_digit c \<Longrightarrow> array_index (c # cs) = None"
  by (simp add: array_index_def)

text \<open>
  The lists that \<^verbatim>\<open>createProject\<close> and \<^verbatim>\<open>addMessage\<close> store are plain when the
  list of the render and the target project are: the messages and snippets that
  they build hold no number and no optional field.
\<close>

lemma key_before_letter: "\<not> is_digit c \<Longrightarrow> key_before (c # cs) k = False"
  by (simp add: key_before_def array_index_letter)

lemmas key_facts = key_before_letter is_digit_def code_unit_def

lemma plain_projects_js:
  "plain (projects_js VDate ps) \<longleftrightarrow> (\<forall>p \<in> set ps. plain (project_js VDate p))"
  by (simp add: projects_js_def)

lemma plain_new_message: "plain (message_js VDate (new_message r text a b))"
  by (simp add: message_js_def new_message_def optional_def key_facts)

lemma plain_push_snippet: "plain (snippet_js (fst (push_snippet g1 body st)))"
  by (simp add: snippet_js_def push_snippet_def Let_def split_def optional_def key_facts)

lemma plain_extractSnippets:
  "c \<in> set (fst (extractSnippets input st)) \<Longrightarrow> plain (snippet_js c)"
proof (induction input arbitrary: st rule: exec_induct)
  case (step input)
  show ?case
  proof (cases "exec input")
    case None
    with step.prems show ?thesis by (simp add: extractSnippets_None)
  next
    case (Some m)
    obtain g1 body rest where m: "m = (g1, body, rest)" by (cases m)
    from step.prems Some m
    consider "c = fst (push_snippet g1 body st)"
      | "c \<in> set (fst (extractSnippets rest (snd (push_snippet g1 body st))))"
      by (auto simp: extractSnippets_Some)
    then show ?thesis
    proof cases
      case 1
      then show ?thesis by (simp only: plain_push_snippet)
    next
      case 2
      with step.IH Some m show ?thesis by blast
    qed
  qed
qed

lemma plain_new_project: "plain (project_js VDate (new_project u nm a b))"
  by (simp add: js_defs new_project_def key_facts)

lemma plain_workspace_update:
  assumes "plain (project_js VDate p)"
    and "\<forall>m \<in> set ms. plain (message_js VDate m)"
    and "\<forall>c \<in> set cs. plain (snippet_js c)"
  shows "plain (project_js VDate
           (p\<lparr>lastModified := x,
              workspace := (workspace p)\<lparr>messages := messages (workspace p) @ ms,
                                          snippets := snippets (workspace p) @ cs\<rparr>\<rparr>))"
  using assms
  by (auto simp add: project_js_def workspace_js_def optional_def key_facts split: option.splits)

lemma plain_ingested:
  assumes "plain (project_js VDate p)"
  shows "plain (project_js VDate (ingested p r text st))"
proof -
  define cs where "cs = fst (extractSnippets text (st\<lparr>ticks := Suc (Suc (Suc (ticks st)))\<rparr>))"
  have "ingested p r text st =
      p\<lparr>lastModified := toISOString (clock st (Suc (Suc (ticks st)))),
        workspace := (workspace p)\<lparr>messages := messages (workspace p)
            @ [new_message r text (clock st (ticks st)) (clock st (Suc (ticks st)))],
          snippets := snippets (workspace p) @ cs\<rparr>\<rparr>"
    by (simp add: ingested_def with_snippets_def with_message_def cs_def)
  moreover have "\<forall>c \<in> set cs. plain (snippet_js c)"
    unfolding cs_def by (blast intro: plain_extractSnippets)
  ultimately show ?thesis
    using plain_workspace_update [OF assms, of "[new_message r text (clock st (ticks st)) (clock st (Suc (ticks st)))]" cs]
    by (simp add: plain_new_message)
qed

lemma plain_replace_project:
  assumes "plain (projects_js VDate ps)" "plain (project_js VDate u)"
  shows "plain (projects_js VDate (replace_project u ps))"
  using assms by (auto simp add: plain_projects_js replace_project_def Let_def)

lemma createProject_keeps_plain:
  "plain (projects_js VDate (projects cap))
    \<Longrightarrow> plain (projects_js VDate (projects (snd (createProject cap name_opt st))))"
  by (simp add: createProject_eq saveProjects_fields plain_projects_js plain_new_project)

lemma addMessage_keeps_plain:
  "plain (projects_js VDate (projects cap)) \<Longrightarrow> plain (project_js VDate p)
    \<Longrightarrow> plain (projects_js VDate (projects (snd (addMessage cap r text (Some p) st))))"
  by (simp add: addMessage_snd saveProjects_fields plain_replace_project plain_ingested)

section \<open>The claims\<close>



text \<open>
  C2, as amended.  The load effect leaves the empty project list when the
  storage item does not exist, and when it is the empty string.  When the
  stored text fails to parse as JSON, the effect does not fail open: it throws
  the \<^verbatim>\<open>SyntaxError\<close> of \<^verbatim>\<open>JSON.parse\<close>.
\<close>

theorem load_absent_or_unparsable:
  "load None = Inr (VArr []) \<and> load (Some []) = Inr (VArr [])
   \<and> (s \<noteq> [] \<and> JSON_parse s = Inl SyntaxError \<longrightarrow> load (Some s) = Inl SyntaxError)"
  by (simp add: load_def)

text \<open>A stored text that breaks off after the first key.\<close>

theorem load_absent_or_unparsable_witness:
  \<open>JSON_parse ''[{"projectId":'' = Inl SyntaxError
   \<and> load (Some ''[{"projectId":'') = Inl SyntaxError\<close>
proof -
  have p: \<open>JSON_parse ''[{"projectId":'' = Inl SyntaxError\<close> by code_simp
  with load_absent_or_unparsable [of \<open>''[{"projectId":''\<close>] show ?thesis by simp
qed

text \<open>
  C2 as stated fails: for a stored text that is not JSON the effect throws, it
  does not yield the empty list.
\<close>

theorem load_unparsable_counterexample:
  "load (Some ''not json'') = Inl SyntaxError"
proof -
  have "JSON_parse ''not json'' = Inl SyntaxError" by code_simp
  then show ?thesis by (simp add: load_def)
qed



text \<open>
  C4.  The text of a turn holds no line feed: \<^verbatim>\<open>handleSendMessage\<close> is called
  with the trimmed value of the single-line text input (\<open>handleSubmit\<close>) or with
  one of the four prompts (\<open>onSelect\<close>).  When the outbound call of such a turn
  fails, the project of the turn has exactly one more message, the user's, and
  the snippets that it had: no assistant message is appended and no snippet is
  added.  The indicator is back to idle, the busy flag is off, and the error is
  written to the console only: the project list and the storage item are those
  of the ingest of the user message.
\<close>

theorem failed_turn_keeps_user_message_only:
  assumes "\<not> isSynthesizing cap" and "CHR 0x0A \<notin> set text"
  shows "\<exists>p' m. currentProject (handleSendMessage (\<lambda>h x. Inl e) cap text st) = Some p'
      \<and> messages (workspace p') = messages (workspace (turn_project cap st)) @ [m]
      \<and> role m = User \<and> content m = text
      \<and> snippets (workspace p') = snippets (workspace (turn_project cap st))
      \<and> projects (handleSendMessage (\<lambda>h x. Inl e) cap text st) = replace_project p' (projects cap)
      \<and> localStorage (handleSendMessage (\<lambda>h x. Inl e) cap text st)
          = Some (JSON_stringify (projects_js VDate (replace_project p' (projects cap))))
      \<and> intelligenceState (handleSendMessage (\<lambda>h x. Inl e) cap text st) = Idle
      \<and> \<not> isSynthesizing (handleSendMessage (\<lambda>h x. Inl e) cap text st)
      \<and> console_errors (handleSendMessage (\<lambda>h x. Inl e) cap text st) = console_errors st @ [e]"
proof -
  have "exec text = None" using assms(2) by (rule exec_single_line)
  then have "snippets (workspace (ingested (turn_project cap st) User text (turn_start cap st)))
      = snippets (workspace (turn_project cap st))"
    by (rule ingested_no_match)
  then show ?thesis
    by (simp add: handleSendMessage_failed [OF assms(1)] finally_idle_fields addMessage_state
      ingested_fields new_message_fields turn_start_console)
qed

text \<open>
  A failed turn in the state without a project, where the input bar is enabled:
  the turn creates the project and appends the user message to it.
\<close>

theorem failed_turn_keeps_user_message_only_witness:
  "map_option (map content \<circ> messages \<circ> workspace)
     (currentProject (handleSendMessage (\<lambda>h x. Inl (ChatError ''offline'')) empty_state
        ''hello'' empty_state)) = Some [''hello'']
   \<and> map_option (snippets \<circ> workspace)
     (currentProject (handleSendMessage (\<lambda>h x. Inl (ChatError ''offline'')) empty_state
        ''hello'' empty_state)) = Some []
   \<and> intelligenceState (handleSendMessage (\<lambda>h x. Inl (ChatError ''offline'')) empty_state
        ''hello'' empty_state) = Idle
   \<and> console_errors (handleSendMessage (\<lambda>h x. Inl (ChatError ''offline'')) empty_state
        ''hello'' empty_state) = [ChatError ''offline'']"
proof -
  have b: "\<not> isSynthesizing empty_state" by (simp add: empty_state_def sample_state_def)
  have l: "CHR 0x0A \<notin> set ''hello''" by simp
  have t: "messages (workspace (turn_project empty_state empty_state)) = []"
    "snippets (workspace (turn_project empty_state empty_state)) = []"
    by (simp_all add: turn_project_def empty_state_def sample_state_def createProject_eq
        new_project_fields)
  have c: "console_errors empty_state = []" by (simp add: empty_state_def sample_state_def)
  show ?thesis
    using failed_turn_keeps_user_message_only [OF b l, of "ChatError ''offline''" empty_state]
    by (auto simp add: t c)
qed

text \<open>
  C5 fails on the code.  For every list of projects whose value is plain,
  loading what \<^verbatim>\<open>saveProjects\<close> stored gives the list with every \<^verbatim>\<open>Date\<close>
  replaced by the string that \<^verbatim>\<open>toISOString\<close> gives; when a project of the list
  has a message, this is not the list that was saved: the \<^verbatim>\<open>timestamp\<close> of a
  message, declared a \<^verbatim>\<open>Date\<close> in \<^verbatim>\<open>types.ts\<close>, comes back as a string.  The
  list that holds the sample project after \<^verbatim>\<open>addMessage('user', 'hi')\<close> is
  such a list.
\<close>

theorem save_then_load_turns_dates_into_strings:
  assumes "plain (projects_js VDate ps)"
  shows "load (localStorage (saveProjects ps st)) = Inr (serialized (projects_js VDate ps))
       \<and> ((\<exists>p \<in> set ps. messages (workspace p) \<noteq> [])
           \<longrightarrow> load (localStorage (saveProjects ps st)) \<noteq> Inr (projects_js VDate ps))"
proof -
  have "JSON_stringify (projects_js VDate ps) \<noteq> []" by (simp add: projects_js_def)
  then have "load (localStorage (saveProjects ps st)) = JSON_parse (JSON_stringify (projects_js VDate ps))"
    by (simp add: saveProjects_fields load_def)
  also have "\<dots> = Inr (serialized (projects_js VDate ps))"
    using assms by (rule parse_stringify)
  finally show ?thesis using projects_js_not_serialized by auto
qed

theorem save_then_load_turns_dates_into_strings_witness:
  "plain (projects_js VDate [chat_project])
   \<and> load (localStorage (saveProjects [chat_project] sample_state))
     = Inr (projects_js (\<lambda>t. VStr (toISOString t)) [chat_project])
   \<and> load (localStorage (saveProjects [chat_project] sample_state))
     \<noteq> Inr (projects_js VDate [chat_project])"
proof -
  have p: "plain (projects_js VDate [chat_project])"
    by (simp add: chat_project_js key_before_def array_index_letter is_digit_def code_unit_def)
  have m: "\<exists>p \<in> set [chat_project]. messages (workspace p) \<noteq> []"
    by (simp add: chat_project_eq with_message_def)
  have s: "serialized (projects_js VDate [chat_project])
      = projects_js (\<lambda>t. VStr (toISOString t)) [chat_project]"
    by (simp add: chat_project_js)
  from save_then_load_turns_dates_into_strings [OF p, of sample_state] m
  have "load (localStorage (saveProjects [chat_project] sample_state))
        = Inr (serialized (projects_js VDate [chat_project]))"
    and "load (localStorage (saveProjects [chat_project] sample_state))
        \<noteq> Inr (projects_js VDate [chat_project])"
    by blast+
  with p s show ?thesis by (simp only:) simp
qed

text \<open>
  C6, as amended.  A fenced region that the pattern matches (the opening
  backticks, a possibly empty run of word characters, a line feed right after
  the run, a body whose first three backticks are the closing ones) after a text
  without three backticks yields exactly one snippet, placed before the snippets
  of what follows the region.  Its language is the run of word characters, or
  \<^verbatim>\<open>typescript\<close> for an empty run; its code is the body.  Its category is the
  one named at the leftmost place of the body that matches the marker pattern
  (two slashes, white space, \<^verbatim>\<open>Category:\<close>, white space and one of the four names,
  in any case), and frontend when no place of the body matches it.
\<close>

theorem fenced_region_yields_snippet:
  assumes "\<not> has_fence pre" and "list_all word_char lang"
    and "\<not> has_fence body" and "body = [] \<or> last body \<noteq> CHR 0x60"
  shows "\<exists>p'. fst (addMessage cap Assistant (pre @ fence @ lang @ CHR 0x0A # body @ fence @ rest)
                    (Some p) st) = Some p'
      \<and> map snippet_view (snippets (workspace p'))
          = map snippet_view (snippets (workspace p))
            @ (if lang = [] then ''typescript'' else lang, body, category_of body) # fences rest
      \<and> (\<forall>a ws1 kw ws2 nm z c.
            body = a @ ''//'' @ ws1 @ kw @ ws2 @ nm @ z
            \<and> (\<forall>i<length a. marker_here (drop i body) = None)
            \<and> list_all js_space ws1 \<and> list_all js_space ws2
            \<and> toLowerCase kw = ''category:'' \<and> toLowerCase nm = category_name c
            \<longrightarrow> category_of body = c)
      \<and> ((\<forall>i. marker_here (drop i body) = None) \<longrightarrow> category_of body = Frontend)"
proof -
  have "fences (pre @ fence @ lang @ CHR 0x0A # body @ fence @ rest)
      = (if lang = [] then ''typescript'' else lang, body, category_of body) # fences rest"
    by (simp add: fences_Some [OF exec_fenced [OF assms]] language_of_def)
  then have "map snippet_view (snippets (workspace
        (ingested p Assistant (pre @ fence @ lang @ CHR 0x0A # body @ fence @ rest) st)))
      = map snippet_view (snippets (workspace p))
        @ (if lang = [] then ''typescript'' else lang, body, category_of body) # fences rest"
    by (simp add: ingested_fields)
  moreover have "\<forall>a ws1 kw ws2 nm z c.
            body = a @ ''//'' @ ws1 @ kw @ ws2 @ nm @ z
            \<and> (\<forall>i<length a. marker_here (drop i body) = None)
            \<and> list_all js_space ws1 \<and> list_all js_space ws2
            \<and> toLowerCase kw = ''category:'' \<and> toLowerCase nm = category_name c
            \<longrightarrow> category_of body = c"
    using category_of_first_marker by blast
  moreover have "(\<forall>i. marker_here (drop i body) = None) \<longrightarrow> category_of body = Frontend"
    using category_of_no_marker by blast
  ultimately show ?thesis
    unfolding addMessage_fst by blast
qed

text \<open>
  C6 as stated fails: a complete fenced region whose opening backticks are
  followed by \<^verbatim>\<open>c++\<close>, which is no run of word characters before the line feed,
  yields no snippet, whatever the project and the state.
\<close>

theorem fenced_region_counterexample:
  "\<forall>cap p st.
     map_option (snippets \<circ> workspace)
        (fst (addMessage cap Assistant ''```c++\<newline>int x = 1;\<newline>```'' (Some p) st))
      = Some (snippets (workspace p))"
proof (intro allI)
  fix cap p st
  have "exec ''```c++\<newline>int x = 1;\<newline>```'' = None" by code_simp
  then show "map_option (snippets \<circ> workspace)
        (fst (addMessage cap Assistant ''```c++\<newline>int x = 1;\<newline>```'' (Some p) st))
      = Some (snippets (workspace p))"
    by (simp add: addMessage_fst ingested_no_match)
qed

text \<open>
  The example of the specification: the content
  \<^verbatim>\<open>```ts\n// Category: backend\nconst x=1;\n```\<close> yields exactly one snippet, with
  language \<^verbatim>\<open>ts\<close> and category backend.  So does a body whose marker comes
  after a line with a slash of its own.
\<close>

theorem fenced_region_yields_snippet_witness:
  "(\<forall>cap p st.
     map_option (map snippet_view \<circ> snippets \<circ> workspace)
        (fst (addMessage cap Assistant
                ''```ts\<newline>// Category: backend\<newline>const x=1;\<newline>```'' (Some p) st))
      = Some (map snippet_view (snippets (workspace p))
              @ [(''ts'', ''// Category: backend\<newline>const x=1;\<newline>'', Backend)]))
   \<and> (\<forall>cap p st.
     map_option (map snippet_view \<circ> snippets \<circ> workspace)
        (fst (addMessage cap Assistant
                ''```ts\<newline>const r = a / b;\<newline>// Category: backend\<newline>```'' (Some p) st))
      = Some (map snippet_view (snippets (workspace p))
              @ [(''ts'', ''const r = a / b;\<newline>// Category: backend\<newline>'', Backend)]))"
proof (intro conjI allI)
  fix cap p st
  have w: "list_all word_char ''ts''" by code_simp
  have f: "fences [] = []" by code_simp
  have h1: "\<not> has_fence []" by simp
  have h2: "\<not> has_fence ''// Category: backend\<newline>const x=1;\<newline>''" by code_simp
  have h3: "''// Category: backend\<newline>const x=1;\<newline>'' = [] \<or>
            last ''// Category: backend\<newline>const x=1;\<newline>'' \<noteq> CHR 0x60" by simp
  have m: "''// Category: backend\<newline>const x=1;\<newline>''
             = [] @ ''//'' @ '' '' @ ''Category:'' @ '' '' @ ''backend'' @ ''\<newline>const x=1;\<newline>''
           \<and> list_all js_space '' '' \<and> list_all js_space '' ''
           \<and> toLowerCase ''Category:'' = ''category:''
           \<and> toLowerCase ''backend'' = category_name Backend"
    by code_simp
  have e: "\<forall>i<length ([]::string). marker_here (drop i ''// Category: backend\<newline>const x=1;\<newline>'') = None"
    by simp
  from fenced_region_yields_snippet [OF h1 w h2 h3, of cap "[]" p st]
  obtain p' where
    p: "fst (addMessage cap Assistant
          ([] @ fence @ ''ts'' @ CHR 0x0A # ''// Category: backend\<newline>const x=1;\<newline>'' @ fence @ [])
          (Some p) st) = Some p'"
    and v: "map snippet_view (snippets (workspace p'))
          = map snippet_view (snippets (workspace p))
            @ (if ''ts'' = [] then ''typescript'' else ''ts'',
               ''// Category: backend\<newline>const x=1;\<newline>'',
               category_of ''// Category: backend\<newline>const x=1;\<newline>'') # fences []"
    and c: "\<forall>a ws1 kw ws2 nm z c.
            ''// Category: backend\<newline>const x=1;\<newline>'' = a @ ''//'' @ ws1 @ kw @ ws2 @ nm @ z
            \<and> (\<forall>i<length a. marker_here (drop i ''// Category: backend\<newline>const x=1;\<newline>'') = None)
            \<and> list_all js_space ws1 \<and> list_all js_space ws2
            \<and> toLowerCase kw = ''category:'' \<and> toLowerCase nm = category_name c
            \<longrightarrow> category_of ''// Category: backend\<newline>const x=1;\<newline>'' = c"
    by blast
  from c m e have "category_of ''// Category: backend\<newline>const x=1;\<newline>'' = Backend" by blast
  with p v show "map_option (map snippet_view \<circ> snippets \<circ> workspace)
        (fst (addMessage cap Assistant
                ''```ts\<newline>// Category: backend\<newline>const x=1;\<newline>```'' (Some p) st))
      = Some (map snippet_view (snippets (workspace p))
              @ [(''ts'', ''// Category: backend\<newline>const x=1;\<newline>'', Backend)])"
    by (simp add: f fence_def)
next
  fix cap p st
  let ?body = "''const r = a / b;\<newline>// Category: backend\<newline>''"
  have w: "list_all word_char ''ts''" by code_simp
  have f: "fences [] = []" by code_simp
  have h1: "\<not> has_fence []" by simp
  have h2: "\<not> has_fence ?body" by code_simp
  have h3: "?body = [] \<or> last ?body \<noteq> CHR 0x60" by simp
  have m: "?body = ''const r = a / b;\<newline>'' @ ''//'' @ '' '' @ ''Category:'' @ '' '' @ ''backend'' @ ''\<newline>''
           \<and> list_all js_space '' '' \<and> list_all js_space '' ''
           \<and> toLowerCase ''Category:'' = ''category:''
           \<and> toLowerCase ''backend'' = category_name Backend"
    by code_simp
  have "list_all (\<lambda>i. marker_here (drop i ?body) = None) [0..<17]" by code_simp
  then have e: "\<forall>i<length ''const r = a / b;\<newline>''. marker_here (drop i ?body) = None"
    by (simp add: list_all_iff)
  from fenced_region_yields_snippet [OF h1 w h2 h3, of cap "[]" p st]
  obtain p' where
    p: "fst (addMessage cap Assistant ([] @ fence @ ''ts'' @ CHR 0x0A # ?body @ fence @ [])
          (Some p) st) = Some p'"
    and v: "map snippet_view (snippets (workspace p'))
          = map snippet_view (snippets (workspace p))
            @ (if ''ts'' = [] then ''typescript'' else ''ts'', ?body, category_of ?body) # fences []"
    and c: "\<forall>a ws1 kw ws2 nm z c.
            ?body = a @ ''//'' @ ws1 @ kw @ ws2 @ nm @ z
            \<and> (\<forall>i<length a. marker_here (drop i ?body) = None)
            \<and> list_all js_space ws1 \<and> list_all js_space ws2
            \<and> toLowerCase kw = ''category:'' \<and> toLowerCase nm = category_name c
            \<longrightarrow> category_of ?body = c"
    by blast
  from c m e have "category_of ?body = Backend" by blast
  with p v show "map_option (map snippet_view \<circ> snippets \<circ> workspace)
        (fst (addMessage cap Assistant
                ''```ts\<newline>const r = a / b;\<newline>// Category: backend\<newline>```'' (Some p) st))
      = Some (map snippet_view (snippets (workspace p)) @ [(''ts'', ?body, Backend)])"
    by (simp add: f fence_def)
qed

text \<open>
  C7.  When the content of an assistant message produces at least one frontend
  snippet, the preview content after \<^verbatim>\<open>addMessage\<close> is the code of the last
  frontend snippet produced, whatever the preview was before; the new snippets
  are one for each match, in order.
\<close>

theorem preview_is_last_frontend_snippet:
  assumes "frontend_codes (fences text) \<noteq> []"
  shows "previewContent (snd (addMessage cap Assistant text (Some p) st))
           = last (frontend_codes (fences text))
       \<and> (\<exists>p'. fst (addMessage cap Assistant text (Some p) st) = Some p'
             \<and> map snippet_view (snippets (workspace p'))
                 = map snippet_view (snippets (workspace p)) @ fences text)"
  using assms by (simp add: addMessage_state addMessage_fst ingested_fields)

text \<open>
  A content with two frontend blocks: exactly two new snippets, and the preview
  is the code of the second block.
\<close>

lemma two_blocks:
  "fences ''Here:\<newline>```tsx\<newline>const A = 1;\<newline>```\<newline>then\<newline>```\<newline>// category: FRONTEND\<newline>const B = 2;\<newline>```\<newline>done''
     = [(''tsx'', ''const A = 1;\<newline>'', Frontend),
        (''typescript'', ''// category: FRONTEND\<newline>const B = 2;\<newline>'', Frontend)]"
  by code_simp

theorem preview_is_last_frontend_snippet_witness:
  "previewContent (snd (addMessage sample_state Assistant
      ''Here:\<newline>```tsx\<newline>const A = 1;\<newline>```\<newline>then\<newline>```\<newline>// category: FRONTEND\<newline>const B = 2;\<newline>```\<newline>done''
      (Some sample_project) sample_state))
     = ''// category: FRONTEND\<newline>const B = 2;\<newline>''
   \<and> map_option (map snippet_view \<circ> snippets \<circ> workspace)
        (fst (addMessage sample_state Assistant
      ''Here:\<newline>```tsx\<newline>const A = 1;\<newline>```\<newline>then\<newline>```\<newline>// category: FRONTEND\<newline>const B = 2;\<newline>```\<newline>done''
      (Some sample_project) sample_state))
     = Some [(''tsx'', ''const A = 1;\<newline>'', Frontend),
        (''typescript'', ''// category: FRONTEND\<newline>const B = 2;\<newline>'', Frontend)]"
proof -
  have h: "frontend_codes (fences ''Here:\<newline>```tsx\<newline>const A = 1;\<newline>```\<newline>then\<newline>```\<newline>// category: FRONTEND\<newline>const B = 2;\<newline>```\<newline>done'') \<noteq> []"
    by (simp add: two_blocks frontend_codes_def)
  show ?thesis
    using preview_is_last_frontend_snippet [OF h, of sample_state sample_project sample_state]
    by (auto simp add: two_blocks frontend_codes_def sample_project_workspace)
qed



text \<open>
  C9 fails on the code.  \<^verbatim>\<open>createProject\<close> yields a project without messages
  and snippets, named \<^verbatim>\<open>Mission n\<close> when no name (or an empty one) is given, makes
  it the current project and stores it in front of the list of the render that
  the callback belongs to.  Its identifier is the next one that
  \<^verbatim>\<open>crypto.randomUUID()\<close> returns: when the identifiers returned up to this one
  are pairwise different and the projects got theirs from earlier calls, it is
  the identifier of no project of the stored list or of the list of the render,
  and the same holds again of the list after the call.  The stored list is the
  previous one with the new project in front exactly when the list of the
  render is the stored one.
\<close>

theorem createProject_new_project:
  assumes "distinct (map (uuid st) [0..<Suc (draws st)])"
    and "projectId ` set (projects st) \<subseteq> set (drawn st)"
    and "projectId ` set (projects cap) \<subseteq> set (drawn st)"
  shows "\<exists>np st'. createProject cap name_opt st = (np, st')
      \<and> messages (workspace np) = [] \<and> snippets (workspace np) = []
      \<and> projectId np \<notin> projectId ` set (projects st)
      \<and> projectId np \<notin> projectId ` set (projects cap)
      \<and> (name_opt = None \<or> name_opt = Some [] \<longrightarrow>
            name np = ''Mission '' @ string_of_nat (length (projects cap) + 1))
      \<and> (\<forall>n. name_opt = Some n \<and> n \<noteq> [] \<longrightarrow> name np = n)
      \<and> projects st' = np # projects cap
      \<and> currentProject st' = Some np
      \<and> localStorage st' = Some (JSON_stringify (projects_js VDate (np # projects cap)))
      \<and> drawn st' = drawn st @ [projectId np]
      \<and> distinct (drawn st')
      \<and> projectId ` set (projects st') \<subseteq> set (drawn st')
      \<and> ((projects st' = np # projects st) = (projects cap = projects st))"
proof -
  define np where "np = fst (createProject cap name_opt st)"
  define st' where "st' = snd (createProject cap name_opt st)"
  from assms(1) have new: "uuid st (draws st) \<notin> set (drawn st)" and d: "distinct (drawn st)"
    by (simp_all add: drawn_def)
  have id: "projectId np = uuid st (draws st)"
    by (simp add: np_def createProject_eq new_project_fields)
  have dr: "drawn st' = drawn st @ [projectId np]"
    by (simp add: st'_def id createProject_draws)
  have ps: "projects st' = np # projects cap"
    by (simp add: st'_def np_def createProject_eq saveProjects_fields)
  have c1: "createProject cap name_opt st = (np, st')" by (simp add: np_def st'_def)
  have c2: "messages (workspace np) = []" and c3: "snippets (workspace np) = []"
    by (simp_all add: np_def createProject_eq new_project_fields)
  have c4: "projectId np \<notin> projectId ` set (projects st)"
    using new assms(2) by (auto simp add: id)
  have c5: "projectId np \<notin> projectId ` set (projects cap)"
    using new assms(3) by (auto simp add: id)
  have c6: "name_opt = None \<or> name_opt = Some [] \<longrightarrow>
      name np = ''Mission '' @ string_of_nat (length (projects cap) + 1)"
    by (auto simp add: np_def createProject_eq new_project_fields default_name_def)
  have c7: "\<forall>n. name_opt = Some n \<and> n \<noteq> [] \<longrightarrow> name np = n"
    by (auto simp add: np_def createProject_eq new_project_fields)
  have c8: "currentProject st' = Some np"
    by (simp add: st'_def np_def createProject_eq saveProjects_fields)
  have c9: "localStorage st' = Some (JSON_stringify (projects_js VDate (np # projects cap)))"
    by (simp add: st'_def np_def createProject_eq saveProjects_fields)
  have c10: "distinct (drawn st')"
    using d new by (simp add: dr id)
  have c11: "projectId ` set (projects st') \<subseteq> set (drawn st')"
    using assms(3) by (auto simp add: ps dr)
  have c12: "(projects st' = np # projects st) = (projects cap = projects st)"
    by (simp add: ps)
  from c1 c2 c3 c4 c5 c6 c7 ps c8 c9 dr c10 c11 c12 show ?thesis
    by (intro exI [of _ np] exI [of _ st'] conjI)
qed

text \<open>
  A click on a prompt without a current project (\<open>onSelect\<close>) calls
  \<^verbatim>\<open>createProject\<close> and then \<^verbatim>\<open>handleSendMessage\<close>, which reads
  \<^verbatim>\<open>currentProject\<close> from the same render and calls \<^verbatim>\<open>createProject\<close> again.  The
  second call stores its project in front of the list of the render, which is
  empty: the project of the first call is no longer in the list.
\<close>

theorem createProject_new_project_witness:
  "projects (snd (createProject empty_state None empty_state))
     = [new_project ''uuid-0'' ''Mission 1'' 1700000000000 1700000000001]
   \<and> fst (createProject empty_state None (snd (createProject empty_state None empty_state)))
     = new_project ''uuid-1'' ''Mission 1'' 1700000000002 1700000000003
   \<and> projects (turn_start empty_state (snd (createProject empty_state None empty_state)))
     = [new_project ''uuid-1'' ''Mission 1'' 1700000000002 1700000000003]
   \<and> projects (turn_start empty_state (snd (createProject empty_state None empty_state)))
     \<noteq> new_project ''uuid-1'' ''Mission 1'' 1700000000002 1700000000003
         # projects (snd (createProject empty_state None empty_state))"
proof -
  define st1 where "st1 = snd (createProject empty_state None empty_state)"
  have n: "string_of_nat 0 = ''0''" "string_of_nat (Suc 0) = ''1''"
    by (simp_all add: string_of_nat_digit digit_char_def)
  have e: "projects empty_state = []" "currentProject empty_state = None"
    "draws empty_state = 0" "ticks empty_state = 0"
    "uuid empty_state = (\<lambda>k. ''uuid-'' @ string_of_nat k)"
    "clock empty_state = (\<lambda>k. 1700000000000 + k)"
    by (simp_all add: empty_state_def sample_state_def)
  have f1: "projects st1 = [new_project ''uuid-0'' ''Mission 1'' 1700000000000 1700000000001]"
    by (simp add: st1_def createProject_eq saveProjects_fields e default_name_def n)
  have s1: "draws st1 = 1" "ticks st1 = 2" "uuid st1 = (\<lambda>k. ''uuid-'' @ string_of_nat k)"
    "clock st1 = (\<lambda>k. 1700000000000 + k)"
    by (simp_all add: st1_def createProject_eq saveProjects_fields e)
  have h1: "distinct (map (uuid st1) [0..<Suc (draws st1)])"
    by (simp add: s1 n)
  have h2: "projectId ` set (projects st1) \<subseteq> set (drawn st1)"
    by (simp add: f1 drawn_def s1 new_project_fields n)
  have h3: "projectId ` set (projects empty_state) \<subseteq> set (drawn st1)"
    by (simp add: e)
  have t: "turn_start empty_state st1 = snd (createProject empty_state None st1)"
    by (simp add: turn_start_def e)
  have f2: "fst (createProject empty_state None st1)
      = new_project ''uuid-1'' ''Mission 1'' 1700000000002 1700000000003"
    by (simp add: createProject_eq e s1 default_name_def n numeral_2_eq_2 numeral_3_eq_3)
  from createProject_new_project [OF h1 h2 h3, of None]
  have "projects (snd (createProject empty_state None st1))
      = fst (createProject empty_state None st1) # projects empty_state"
    and "(projects (snd (createProject empty_state None st1))
          = fst (createProject empty_state None st1) # projects st1)
        = (projects empty_state = projects st1)"
    by auto
  with f1 f2 t show ?thesis
    unfolding st1_def [symmetric] by (simp add: e)
qed

text \<open>
  C10.  When the outbound call succeeds with an absent or empty response text,
  an assistant message with the content \<^verbatim>\<open>Mission analysis failed.\<close> is appended
  after the user message, nothing is written to the console, and the resulting
  state is the one of a response whose text is that literal string.
\<close>

theorem empty_response_appends_fallback:
  assumes "\<not> isSynthesizing cap" and "t = None \<or> t = Some []"
  shows "\<exists>p' mu ma. currentProject (handleSendMessage (\<lambda>h x. Inr t) cap text st) = Some p'
      \<and> messages (workspace p') = messages (workspace (turn_project cap st)) @ [mu, ma]
      \<and> role mu = User \<and> content mu = text
      \<and> role ma = Assistant \<and> content ma = ''Mission analysis failed.''
      \<and> console_errors (handleSendMessage (\<lambda>h x. Inr t) cap text st) = console_errors st
      \<and> handleSendMessage (\<lambda>h x. Inr t) cap text st
          = handleSendMessage (\<lambda>h x. Inr (Some ''Mission analysis failed.'')) cap text st"
proof -
  from assms(2) have r: "reply_text t = ''Mission analysis failed.''"
    by (auto simp: reply_text_def)
  have r': "reply_text (Some ''Mission analysis failed.'') = ''Mission analysis failed.''"
    by (simp add: reply_text_def)
  show ?thesis
    by (simp add: handleSendMessage_replied [OF assms(1)] r r' finally_idle_fields addMessage_state
      ingested_fields new_message_fields turn_start_console)
qed

text \<open>A turn on the sample project whose response text is empty.\<close>

theorem empty_response_appends_fallback_witness:
  "map_option (map content \<circ> messages \<circ> workspace)
     (currentProject (handleSendMessage (\<lambda>h x. Inr (Some [])) sample_state ''hello'' sample_state))
     = Some [''hello'', ''Mission analysis failed.'']
   \<and> console_errors (handleSendMessage (\<lambda>h x. Inr (Some [])) sample_state ''hello'' sample_state) = []"
proof -
  have b: "\<not> isSynthesizing sample_state" by (simp add: sample_state_def)
  have t: "turn_project sample_state sample_state = sample_project"
    by (simp add: turn_project_def sample_state_def)
  have c: "console_errors sample_state = []" by (simp add: sample_state_def)
  have d: "Some [] = None \<or> Some [] = Some ([]::string)" by simp
  show ?thesis
    using empty_response_appends_fallback [OF b d, of "''hello''" sample_state]
    by (auto simp add: t c sample_project_workspace)
qed

end
